theory Spec2Isabelle
  imports Complex_Main
begin

section \<open>Numbers, parameters and automation events\<close>

text \<open>
  JavaScript numbers are modelled as real numbers: every comparison, \<open>Math.min\<close>,
  \<open>Math.max\<close> and arithmetic operator keeps its meaning, while rounding, \<open>NaN\<close> and
  the infinities are outside the model. \<open>Math.E\<close> is \<open>exp 1\<close>, \<open>Math.PI\<close> is \<open>pi\<close>,
  \<open>Math.log\<close> is \<open>ln\<close>. Knob values that the code passes through \<open>parseInt\<close>
  (\<open>envelopeShape\<close>, \<open>lfoWaveform\<close>) are integers.
\<close>

definition or_default :: "real \<Rightarrow> real \<Rightarrow> real" where
  \<comment> \<open>\<open>x || d\<close> on numbers: zero is falsy\<close>
  "or_default x d = (if x = 0 then d else x)"

definition DEFAULT_MAX_VOICES :: int where "DEFAULT_MAX_VOICES = 128"
definition CLEANUP_INTERVAL :: nat where "CLEANUP_INTERVAL = 60"
definition CLEANUP_DELAY :: real where "CLEANUP_DELAY = 0.1"
definition BASE_GAIN :: real where "BASE_GAIN = 0.2"
definition DEFAULT_FILTER_FREQUENCY :: real where "DEFAULT_FILTER_FREQUENCY = 350"
definition ENVELOPE_STEPS_LOGARITHMIC :: nat where "ENVELOPE_STEPS_LOGARITHMIC = 10"
definition ENVELOPE_STEPS_SIGMOID :: nat where "ENVELOPE_STEPS_SIGMOID = 15"
definition ENVELOPE_STEPS_COSINE :: nat where "ENVELOPE_STEPS_COSINE = 12"
definition ENVELOPE_STEPS_GAUSSIAN :: nat where "ENVELOPE_STEPS_GAUSSIAN = 20"
definition ENVELOPE_STEPS_HANNING :: nat where "ENVELOPE_STEPS_HANNING = 16"

text \<open>The per-slot knob values collected into \<open>params\<close> (\<open>PER_SLOT_CONTROL_SPECS\<close>).\<close>

record params =
  startOffset :: real
  playbackRate :: real
  cutoffFreq :: real
  attackTime :: real
  decayTime :: real
  envelopeShape :: int
  grainSize :: real
  grainsPerStep :: real
  grainVoices :: real
  lfoWaveform :: int
  lfoRate :: real
  spread :: real
  panControl :: real
  panRandom :: real
  volume :: real

text \<open>
  One call on an \<open>AudioParam\<close> timeline; the arguments are (value, time), in the
  order of the Web Audio methods of the same names.
\<close>

datatype automation =
    SetValueAtTime real real
  | LinearRampToValueAtTime real real
  | ExponentialRampToValueAtTime real real

fun event_value :: "automation \<Rightarrow> real" where
  "event_value (SetValueAtTime v t) = v"
| "event_value (LinearRampToValueAtTime v t) = v"
| "event_value (ExponentialRampToValueAtTime v t) = v"

fun event_time :: "automation \<Rightarrow> real" where
  "event_time (SetValueAtTime v t) = t"
| "event_time (LinearRampToValueAtTime v t) = t"
| "event_time (ExponentialRampToValueAtTime v t) = t"

section \<open>Envelope shapes\<close>

text \<open>
  Each \<open>apply...Envelope\<close> method is the list of calls it makes on \<open>gainNode.gain\<close>,
  in program order. A loop \<open>for (let i = 0; i <= steps; i++)\<close> that makes one call per
  round is a \<open>map\<close> over \<open>[0..<Suc steps]\<close>.
\<close>

definition applyLogarithmicEnvelope ::
  "real \<Rightarrow> real \<Rightarrow> real \<Rightarrow> real \<Rightarrow> real \<Rightarrow> automation list" where
  "applyLogarithmicEnvelope startTime attackTime' sustainTime duration peakGain =
     (let steps = ENVELOPE_STEPS_LOGARITHMIC;
          attack = map (\<lambda>i.
              let t = real i / real steps;
                  attackValue = peakGain * ln (1 + t * (exp 1 - 1)) / ln (exp 1)
              in LinearRampToValueAtTime attackValue (startTime + (attackTime' * t)))
            [0..<Suc steps];
          sustain = (if sustainTime > 0
            then [SetValueAtTime peakGain (startTime + attackTime' + sustainTime)] else []);
          releaseStart = startTime + attackTime' + sustainTime;
          releaseTime = duration - attackTime' - sustainTime;
          release = map (\<lambda>i.
              let t = real i / real steps;
                  releaseValue = peakGain * (1 - ln (1 + t * (exp 1 - 1)) / ln (exp 1))
              in LinearRampToValueAtTime releaseValue (releaseStart + (releaseTime * t)))
            [0..<Suc steps]
      in attack @ sustain @ release)"

definition applySigmoidEnvelope ::
  "real \<Rightarrow> real \<Rightarrow> real \<Rightarrow> real \<Rightarrow> real \<Rightarrow> automation list" where
  "applySigmoidEnvelope startTime attackTime' sustainTime duration peakGain =
     (let steps = ENVELOPE_STEPS_SIGMOID;
          attack = map (\<lambda>i.
              let t = real i / real steps;
                  x = (t - 0.5) * 12;
                  sigmoid = 1 / (1 + exp (- x));
                  attackValue = peakGain * sigmoid
              in LinearRampToValueAtTime attackValue (startTime + (attackTime' * t)))
            [0..<Suc steps];
          sustain = (if sustainTime > 0
            then [SetValueAtTime peakGain (startTime + attackTime' + sustainTime)] else []);
          releaseStart = startTime + attackTime' + sustainTime;
          releaseTime = duration - attackTime' - sustainTime;
          release = map (\<lambda>i.
              let t = real i / real steps;
                  x = (0.5 - t) * 12;
                  sigmoid = 1 / (1 + exp (- x));
                  releaseValue = peakGain * sigmoid
              in LinearRampToValueAtTime releaseValue (releaseStart + (releaseTime * t)))
            [0..<Suc steps]
      in attack @ sustain @ release)"

definition applyCosineEnvelope ::
  "real \<Rightarrow> real \<Rightarrow> real \<Rightarrow> real \<Rightarrow> real \<Rightarrow> automation list" where
  "applyCosineEnvelope startTime attackTime' sustainTime duration peakGain =
     (let steps = ENVELOPE_STEPS_COSINE;
          attack = map (\<lambda>i.
              let t = real i / real steps;
                  angle = t * pi / 2;
                  attackValue = peakGain * sin angle
              in LinearRampToValueAtTime attackValue (startTime + (attackTime' * t)))
            [0..<Suc steps];
          sustain = (if sustainTime > 0
            then [SetValueAtTime peakGain (startTime + attackTime' + sustainTime)] else []);
          releaseStart = startTime + attackTime' + sustainTime;
          releaseTime = duration - attackTime' - sustainTime;
          release = map (\<lambda>i.
              let t = real i / real steps;
                  angle = pi / 2 + t * pi / 2;
                  releaseValue = peakGain * \<bar>sin angle\<bar>
              in LinearRampToValueAtTime releaseValue (releaseStart + (releaseTime * t)))
            [0..<Suc steps]
      in attack @ sustain @ release)"

definition applyGaussianEnvelope :: "real \<Rightarrow> real \<Rightarrow> real \<Rightarrow> automation list" where
  "applyGaussianEnvelope startTime duration peakGain =
     (let steps = ENVELOPE_STEPS_GAUSSIAN;
          sigma = duration / 6;
          center = duration / 2
      in map (\<lambda>i.
              let t = (real i / real steps) * duration;
                  x = t - center;
                  gaussian = exp (- (x * x) / (2 * sigma * sigma));
                  v = peakGain * gaussian
              in LinearRampToValueAtTime v (startTime + t))
            [0..<Suc steps])"

definition applyHanningEnvelope :: "real \<Rightarrow> real \<Rightarrow> real \<Rightarrow> automation list" where
  "applyHanningEnvelope startTime duration peakGain =
     (let steps = ENVELOPE_STEPS_HANNING
      in map (\<lambda>i.
              let t = real i / real steps;
                  hanning = 0.5 * (1 - cos (2 * pi * t));
                  v = peakGain * hanning
              in LinearRampToValueAtTime v (startTime + (duration * t)))
            [0..<Suc steps])"

definition applyTriangularEnvelope ::
  "real \<Rightarrow> real \<Rightarrow> real \<Rightarrow> real \<Rightarrow> real \<Rightarrow> automation list" where
  "applyTriangularEnvelope startTime attackTime' sustainTime duration peakGain =
     [LinearRampToValueAtTime peakGain (startTime + attackTime')]
     @ (if sustainTime > 0
        then [SetValueAtTime peakGain (startTime + attackTime' + sustainTime)] else [])
     @ [LinearRampToValueAtTime 0 (startTime + duration)]"

definition envelopePeakGain :: "params \<Rightarrow> real" where
  \<comment> \<open>\<open>const peakGain = BASE_GAIN * (params.volume || 0.7)\<close>\<close>
  "envelopePeakGain p = BASE_GAIN * or_default (volume p) 0.7"

definition envelopeCalls :: "real \<Rightarrow> real \<Rightarrow> params \<Rightarrow> automation list" where
  \<comment> \<open>the calls made by the body of \<open>applyOptimizedEnvelope\<close> when none of them throws\<close>
  "envelopeCalls startTime duration p =
     (let attackTime' = min (duration * 0.3) (attackTime p / 1000);
          releaseTime = min (duration * 0.7) (decayTime p / 1000);
          sustainTime = max 0 (duration - attackTime' - releaseTime);
          peakGain = envelopePeakGain p;
          envelopeType = envelopeShape p
      in SetValueAtTime 0 startTime #
         (if envelopeType = 0 then
            [LinearRampToValueAtTime peakGain (startTime + attackTime')]
            @ (if sustainTime > 0
               then [SetValueAtTime peakGain (startTime + attackTime' + sustainTime)] else [])
            @ [LinearRampToValueAtTime 0 (startTime + duration)]
          else if envelopeType = 1 then
            [ExponentialRampToValueAtTime peakGain (startTime + attackTime')]
            @ (if sustainTime > 0
               then [SetValueAtTime peakGain (startTime + attackTime' + sustainTime)] else [])
            @ [ExponentialRampToValueAtTime 0.001 (startTime + duration)]
          else if envelopeType = 2 then
            applyLogarithmicEnvelope startTime attackTime' sustainTime duration peakGain
          else if envelopeType = 3 then
            applySigmoidEnvelope startTime attackTime' sustainTime duration peakGain
          else if envelopeType = 4 then
            applyCosineEnvelope startTime attackTime' sustainTime duration peakGain
          else if envelopeType = 5 then
            applyGaussianEnvelope startTime duration peakGain
          else if envelopeType = 6 then
            applyHanningEnvelope startTime duration peakGain
          else if envelopeType = 7 then
            applyTriangularEnvelope startTime attackTime' sustainTime duration peakGain
          else
            [LinearRampToValueAtTime peakGain (startTime + attackTime')]
            @ (if sustainTime > 0
               then [SetValueAtTime peakGain (startTime + attackTime' + sustainTime)] else [])
            @ [LinearRampToValueAtTime 0 (startTime + duration)]))"

section \<open>Exceptions and the audio platform\<close>

text \<open>
  A block of code either returns a value or throws, and in both cases leaves a state
  behind: what was mutated before a \<open>throw\<close> stays mutated. \<open>Inl\<close> is the thrown error.
\<close>

datatype error = TypeError | RangeError | PlatformError

type_synonym ('a, 's) js = "(error + 'a) \<times> 's"

definition try_catch :: "('a, 's) js \<Rightarrow> 'a \<Rightarrow> ('a, 's) js" where
  \<comment> \<open>\<open>try { ... } catch (error) { Logger...; return d }\<close>: the logger only writes to the console\<close>
  "try_catch r d = (case r of (Inl e, s) \<Rightarrow> (Inr d, s) | (Inr a, s) \<Rightarrow> (Inr a, s))"

definition bind_js :: "('a, 's) js \<Rightarrow> ('a \<Rightarrow> 's \<Rightarrow> ('b, 's) js) \<Rightarrow> ('b, 's) js" where
  \<comment> \<open>statement sequencing: a throw skips the rest of the block\<close>
  "bind_js r f = (case r of (Inl e, s) \<Rightarrow> (Inl e, s) | (Inr a, s) \<Rightarrow> f a s)"

text \<open>
  What the platform decides during one call into the manager: the audio clock, the
  draw of \<open>Math.random()\<close> in \<open>createOptimizedGrain\<close>, and which platform calls
  throw for reasons the manager cannot see (an invalid buffer, a refused connection,
  a source that cannot be stopped, a node that cannot be reset). Indexed flags are per
  grain, since one call may tear down several grains.
\<close>

record platform =
  pf_currentTime :: real
  pf_random :: real
  pf_source_throws :: bool
  pf_graph_throws :: bool
  pf_stop_throws :: "nat \<Rightarrow> bool"
  pf_reset_throws :: "nat \<Rightarrow> bool"

record buffer =
  buffer_duration :: real

datatype filter_kind = Lowpass | Highpass

record gain_node =
  gain_value :: real
  gain_events :: "automation list"
  gain_connected :: bool

record filter_node =
  filter_type :: filter_kind
  frequency_value :: real
  frequency_events :: "automation list"
  filter_connected :: bool

record panner_node =
  pan_value :: real
  pan_events :: "automation list"
  panner_connected :: bool

record node_triple =
  gainNode :: gain_node
  filterNode :: filter_node
  pannerNode :: panner_node

record buffer_source =
  src_buffer :: buffer
  src_playbackRate :: real
  src_started :: "(real \<times> real \<times> real) option"
  src_stopped :: bool
  src_connected :: bool

definition createGain :: gain_node where
  "createGain = \<lparr>gain_value = 1, gain_events = [], gain_connected = False\<rparr>"

definition createBiquadFilter :: filter_node where
  "createBiquadFilter = \<lparr>filter_type = Lowpass, frequency_value = 350,
     frequency_events = [], filter_connected = False\<rparr>"

definition createStereoPanner :: panner_node where
  "createStereoPanner = \<lparr>pan_value = 0, pan_events = [], panner_connected = False\<rparr>"

definition cancelScheduledValues :: "real \<Rightarrow> automation list \<Rightarrow> automation list" where
  \<comment> \<open>removes every scheduled change whose time is at or after the cancel time\<close>
  "cancelScheduledValues cancelTime evs = filter (\<lambda>e. event_time e < cancelTime) evs"

definition automation_ok :: "automation \<Rightarrow> bool" where
  \<comment> \<open>the platform throws a RangeError for a negative time and for an exponential ramp to 0\<close>
  "automation_ok c = (0 \<le> event_time c \<and>
     (case c of ExponentialRampToValueAtTime v t \<Rightarrow> v \<noteq> 0 | _ \<Rightarrow> True))"

fun schedule :: "automation list \<Rightarrow> automation list \<Rightarrow> (unit, automation list) js" where
  \<comment> \<open>the calls are made in order on a timeline; the first rejected call throws\<close>
  "schedule [] timeline = (Inr (), timeline)"
| "schedule (c # cs) timeline =
     (if automation_ok c then schedule cs (timeline @ [c]) else (Inl RangeError, timeline))"

definition applyOptimizedEnvelope ::
  "gain_node \<Rightarrow> real \<Rightarrow> real \<Rightarrow> params \<Rightarrow> (unit, gain_node) js" where
  "applyOptimizedEnvelope gainNode' startTime duration p =
     try_catch
       (case schedule (envelopeCalls startTime duration p) (gain_events gainNode') of
          (r, timeline) \<Rightarrow> (r, gainNode'\<lparr>gain_events := timeline\<rparr>))
       ()"

section \<open>The voice manager\<close>

text \<open>
  Grain objects live in \<open>grains\<close>, in order of creation; a grain handle is its index
  there, so two handles are the same object exactly when they are equal. The
  \<open>Set\<close> \<open>activeVoices\<close> is the list of its members in insertion order, which is the
  order a \<open>for ... of\<close> loop visits them in. An entry \<open>{ grain, time }\<close> of
  \<open>cleanupQueue\<close> is a pair. Of \<open>masterGain\<close> only \<open>gain.value\<close> is kept.
\<close>

record grain =
  source :: buffer_source
  nodes :: node_triple
  endTime :: real
  isActive :: bool

record node_pool =
  gainNodes :: "gain_node list"
  filterNodes :: "filter_node list"
  pannerNodes :: "panner_node list"

record manager =
  maxVoices :: int
  grains :: "grain list"
  activeVoices :: "nat list"
  cleanupQueue :: "(nat \<times> real) list"
  lastCleanup :: nat
  masterGain :: real
  nodePool :: node_pool

definition preAllocateNodes :: "int \<Rightarrow> node_pool" where
  \<comment> \<open>\<open>for (let i = 0; i < this.maxVoices; i++)\<close> pushes one node of each kind\<close>
  "preAllocateNodes mv = \<lparr>gainNodes = replicate (nat mv) createGain,
     filterNodes = replicate (nat mv) createBiquadFilter,
     pannerNodes = replicate (nat mv) createStereoPanner\<rparr>"

definition constructor :: "int \<Rightarrow> manager" where
  "constructor mv = \<lparr>maxVoices = mv, grains = [], activeVoices = [], cleanupQueue = [],
     lastCleanup = 0, masterGain = 1.0, nodePool = preAllocateNodes mv\<rparr>"

definition getPooledNodes :: "manager \<Rightarrow> node_triple \<times> manager" where
  \<comment> \<open>\<open>pool.pop() || create()\<close> for each kind; \<open>push\<close> and \<open>pop\<close> work at the end of the
      array. Creating a node does not throw, so the \<open>catch\<close> branch is never taken.\<close>
  "getPooledNodes m =
     (let pool = nodePool m in
      (\<lparr>gainNode = (if gainNodes pool = [] then createGain else last (gainNodes pool)),
        filterNode = (if filterNodes pool = [] then createBiquadFilter
                      else last (filterNodes pool)),
        pannerNode = (if pannerNodes pool = [] then createStereoPanner
                      else last (pannerNodes pool))\<rparr>,
       m\<lparr>nodePool := \<lparr>gainNodes = butlast (gainNodes pool),
                       filterNodes = butlast (filterNodes pool),
                       pannerNodes = butlast (pannerNodes pool)\<rparr>\<rparr>))"

definition returnNodesToPool :: "bool \<Rightarrow> node_triple \<Rightarrow> manager \<Rightarrow> (unit, manager) js" where
  \<comment> \<open>the flag says whether one of the reset calls throws; the pushes come after all of them\<close>
  "returnNodesToPool throws nodes' m =
     try_catch
       (if throws then (Inl PlatformError, m)
        else
          let gainNode' = (gainNode nodes')\<lparr>
                gain_events := cancelScheduledValues 0 (gain_events (gainNode nodes')),
                gain_value := 1, gain_connected := False\<rparr>;
              filterNode' = (filterNode nodes')\<lparr>
                frequency_events := cancelScheduledValues 0 (frequency_events (filterNode nodes')),
                frequency_value := DEFAULT_FILTER_FREQUENCY, filter_connected := False\<rparr>;
              pannerNode' = (pannerNode nodes')\<lparr>
                pan_events := cancelScheduledValues 0 (pan_events (pannerNode nodes')),
                pan_value := 0, panner_connected := False\<rparr>;
              pool = nodePool m
          in (Inr (), m\<lparr>nodePool := \<lparr>gainNodes = gainNodes pool @ [gainNode'],
                                       filterNodes = filterNodes pool @ [filterNode'],
                                       pannerNodes = pannerNodes pool @ [pannerNode']\<rparr>\<rparr>))
       ()"

definition createOptimizedGrain ::
  "platform \<Rightarrow> buffer \<Rightarrow> params \<Rightarrow> real \<Rightarrow> real \<Rightarrow> real \<Rightarrow> manager \<Rightarrow> (nat option, manager) js"
  where
  "createOptimizedGrain pf buf p startTime duration position m =
     try_catch
       (if pf_source_throws pf then (Inl PlatformError, m)
        else
          let source' = \<lparr>src_buffer = buf, src_playbackRate = playbackRate p,
                src_started = None, src_stopped = False, src_connected = False\<rparr>;
              (nodes', m1) = getPooledNodes m;
              filterNode' = (filterNode nodes')\<lparr>filter_type := Highpass,
                frequency_value := cutoffFreq p\<rparr>;
              randomAmount = or_default (panRandom p) 0;
              panValue = max (- 1) (min 1 (panControl p + (pf_random pf - 0.5) * randomAmount));
              pannerNode' = (pannerNode nodes')\<lparr>pan_value := panValue\<rparr>;
              gainNode' = snd (applyOptimizedEnvelope (gainNode nodes') startTime duration p)
          in
            \<comment> \<open>\<open>connect\<close> chain, then \<open>source.start(startTime, position, duration)\<close>,
                which throws a RangeError for a negative argument\<close>
            if pf_graph_throws pf \<or> startTime < 0 \<or> position < 0 \<or> duration < 0
            then (Inl PlatformError, m1)
            else
              let grain' = \<lparr>
                    source = source'\<lparr>src_started := Some (startTime, position, duration),
                      src_connected := True\<rparr>,
                    nodes = \<lparr>gainNode = gainNode'\<lparr>gain_connected := True\<rparr>,
                      filterNode = filterNode'\<lparr>filter_connected := True\<rparr>,
                      pannerNode = pannerNode'\<lparr>panner_connected := True\<rparr>\<rparr>,
                    endTime = startTime + duration,
                    isActive = True\<rparr>
              in (Inr (Some (length (grains m1))), m1\<lparr>grains := grains m1 @ [grain']\<rparr>))
       None"

definition scheduleCleanup :: "nat \<Rightarrow> real \<Rightarrow> manager \<Rightarrow> manager" where
  "scheduleCleanup g cleanupTime m = m\<lparr>cleanupQueue := cleanupQueue m @ [(g, cleanupTime)]\<rparr>"

definition stopSource :: "platform \<Rightarrow> nat \<Rightarrow> manager \<Rightarrow> (unit, manager) js" where
  \<comment> \<open>\<open>grain.source.stop(); grain.source.disconnect();\<close>\<close>
  "stopSource pf g m =
     (if pf_stop_throws pf g then (Inl PlatformError, m)
      else (Inr (), m\<lparr>grains := (grains m)[g := (grains m ! g)\<lparr>
              source := (source (grains m ! g))\<lparr>src_stopped := True,
                src_connected := False\<rparr>\<rparr>]\<rparr>))"

definition cleanupGrain :: "platform \<Rightarrow> nat \<Rightarrow> manager \<Rightarrow> (unit, manager) js" where
  \<comment> \<open>a handle that is no grain object makes \<open>grain.isActive\<close> throw, outside the \<open>try\<close>;
      \<open>grain.source\<close> and \<open>grain.nodes\<close> of a grain object are always set\<close>
  "cleanupGrain pf g m =
     (if \<not> g < length (grains m) then (Inl TypeError, m)
      else if \<not> isActive (grains m ! g) then (Inr (), m)
      else
        try_catch
          (let m1 = m\<lparr>grains := (grains m)[g := (grains m ! g)\<lparr>isActive := False\<rparr>]\<rparr>;
               m2 = m1\<lparr>activeVoices := removeAll g (activeVoices m1)\<rparr>;
               m3 = snd (try_catch (stopSource pf g m2) ())
           in returnNodesToPool (pf_reset_throws pf g) (nodes (grains m3 ! g)) m3)
          ())"

fun scanQueue ::
  "real \<Rightarrow> nat \<Rightarrow> (nat \<times> real) list \<Rightarrow> nat list \<Rightarrow> (nat \<times> real) list \<times> nat list" where
  \<comment> \<open>\<open>for (let i = length - 1; i >= 0; i--)\<close>: the counter is \<open>i + 1\<close>; \<open>splice(i, 1)\<close>\<close>
  "scanQueue now 0 queue toCleanup = (queue, toCleanup)"
| "scanQueue now (Suc i) queue toCleanup =
     (let item = queue ! i
      in if snd item \<le> now
         then scanQueue now i (take i queue @ drop (Suc i) queue) (toCleanup @ [fst item])
         else scanQueue now i queue toCleanup)"

fun forEach_cleanupGrain :: "platform \<Rightarrow> nat list \<Rightarrow> manager \<Rightarrow> (unit, manager) js" where
  "forEach_cleanupGrain pf [] m = (Inr (), m)"
| "forEach_cleanupGrain pf (g # gs) m =
     bind_js (cleanupGrain pf g m) (\<lambda>_ m'. forEach_cleanupGrain pf gs m')"

definition performCleanup :: "platform \<Rightarrow> manager \<Rightarrow> (unit, manager) js" where
  "performCleanup pf m =
     try_catch
       (let now = pf_currentTime pf;
            (queue, toCleanup) =
              scanQueue now (length (cleanupQueue m)) (cleanupQueue m) []
        in forEach_cleanupGrain pf toCleanup (m\<lparr>cleanupQueue := queue\<rparr>))
       ()"

text \<open>
  \<open>oldestTime\<close> starts at \<open>Infinity\<close>, which is \<open>None\<close> here. The \<open>endTime\<close> of a
  grain is a finite number: \<open>source.start\<close> rejects a non-finite start time or
  duration, and then no grain object is made.
\<close>

fun less_oldest :: "real \<Rightarrow> real option \<Rightarrow> bool" where
  "less_oldest x None = True"
| "less_oldest x (Some y) = (x < y)"

fun scanOldest ::
  "grain list \<Rightarrow> nat list \<Rightarrow> nat option \<Rightarrow> real option \<Rightarrow> nat option" where
  "scanOldest gs [] oldestGrain oldestTime = oldestGrain"
| "scanOldest gs (g # rest) oldestGrain oldestTime =
     (if less_oldest (endTime (gs ! g)) oldestTime
      then scanOldest gs rest (Some g) (Some (endTime (gs ! g)))
      else scanOldest gs rest oldestGrain oldestTime)"

definition forceCleanupOldest :: "platform \<Rightarrow> manager \<Rightarrow> (unit, manager) js" where
  "forceCleanupOldest pf m =
     try_catch
       (case scanOldest (grains m) (activeVoices m) None None of
          None \<Rightarrow> (Inr (), m)
        | Some oldestGrain \<Rightarrow> cleanupGrain pf oldestGrain m)
       ()"

definition set_add :: "nat \<Rightarrow> nat list \<Rightarrow> nat list" where
  \<comment> \<open>\<open>Set.prototype.add\<close>\<close>
  "set_add g xs = (if g \<in> set xs then xs else xs @ [g])"

definition createGrain ::
  "platform \<Rightarrow> buffer \<Rightarrow> params \<Rightarrow> real \<Rightarrow> real \<Rightarrow> real \<Rightarrow> manager \<Rightarrow> (nat option, manager) js"
  where
  "createGrain pf buf p startTime duration position m =
     try_catch
       (let m1 = m\<lparr>lastCleanup := Suc (lastCleanup m)\<rparr> in
        bind_js (if lastCleanup m1 mod CLEANUP_INTERVAL = 0
                 then performCleanup pf m1 else (Inr (), m1))
        (\<lambda>_ m2.
        bind_js (if int (length (activeVoices m2)) \<ge> maxVoices m2
                 then forceCleanupOldest pf m2 else (Inr (), m2))
        (\<lambda>_ m3.
        bind_js (createOptimizedGrain pf buf p startTime duration position m3)
        (\<lambda>grain' m4.
          case grain' of
            None \<Rightarrow> (Inr None, m4)
          | Some g \<Rightarrow>
              (Inr (Some g),
               scheduleCleanup g (startTime + duration + CLEANUP_DELAY)
                 (m4\<lparr>activeVoices := set_add g (activeVoices m4)\<rparr>))))))
       None"

definition stopAll :: "platform \<Rightarrow> manager \<Rightarrow> (unit, manager) js" where
  \<comment> \<open>each round deletes only the grain it visits, so the loop visits every member\<close>
  "stopAll pf m =
     try_catch
       (bind_js (forEach_cleanupGrain pf (activeVoices m) m)
          (\<lambda>_ m'. (Inr (), m'\<lparr>cleanupQueue := []\<rparr>)))
       ()"

definition getActiveVoiceCount :: "manager \<Rightarrow> nat" where
  "getActiveVoiceCount m = length (activeVoices m)"

definition setMasterVolume :: "real \<Rightarrow> manager \<Rightarrow> (unit, manager) js" where
  "setMasterVolume volume' m =
     try_catch (Inr (), m\<lparr>masterGain := max 0 (min 1 volume')\<rparr>) ()"

text \<open>
  What can happen to a manager: the calls of its public methods and, for any grain,
  the \<open>onended\<close> callback of its source, which calls \<open>cleanupGrain\<close>.
\<close>

datatype action =
    CreateGrain platform buffer params real real real
  | SourceEnded platform nat
  | PerformCleanup platform
  | StopAll platform
  | SetMasterVolume real

fun step :: "action \<Rightarrow> manager \<Rightarrow> manager" where
  "step (CreateGrain pf buf p startTime duration position) m =
     snd (createGrain pf buf p startTime duration position m)"
| "step (SourceEnded pf g) m = snd (cleanupGrain pf g m)"
| "step (PerformCleanup pf) m = snd (performCleanup pf m)"
| "step (StopAll pf) m = snd (stopAll pf m)"
| "step (SetMasterVolume v) m = snd (setMasterVolume v m)"

definition run :: "action list \<Rightarrow> manager \<Rightarrow> manager" where
  "run acts m = fold step acts m"

section \<open>The grain trigger\<close>

text \<open>
  \<open>Math.random()\<close> is a sequence of draws: \<open>r 0\<close> is the next one and \<open>rng_rest r\<close>
  the generator after it. \<open>js_rem\<close> is the remainder operator \<open>%\<close> on numbers, which
  truncates the quotient towards zero. The knob values arrive as \<open>params\<close>; drawing
  the playhead (\<open>_flashSlot\<close>) changes nothing the manager sees and is left out.
\<close>

type_synonym rng = "nat \<Rightarrow> real"

definition rng_rest :: "rng \<Rightarrow> rng" where
  "rng_rest r = (\<lambda>n. r (Suc n))"

definition js_rem :: "real \<Rightarrow> real \<Rightarrow> real" where
  "js_rem a b = a - b * of_int (if 0 \<le> a / b then \<lfloor>a / b\<rfloor> else \<lceil>a / b\<rceil>)"

definition getLFOValue :: "int \<Rightarrow> real \<Rightarrow> real \<Rightarrow> rng \<Rightarrow> real \<times> rng" where
  "getLFOValue waveformType rate time r =
     (let waveformIndex = waveformType in
      if waveformIndex = 0 then ((sin (2 * pi * rate * time) + 1) / 2, r)
      else if waveformIndex = 1 then (1 - \<bar>js_rem (time * rate) 2 - 1\<bar>, r)
      else if waveformIndex = 2 then ((if js_rem (time * rate) 1 < 0.5 then 0 else 1), r)
      else if waveformIndex = 3 then (r 0, rng_rest r)
      else (0.5, r))"

text \<open>The arguments of one call \<open>createGrain(buffer, spreadParams, grainStartTime, grainDurSec, positionSec)\<close>.\<close>

record grain_call =
  call_params :: params
  call_startTime :: real
  call_duration :: real
  call_position :: real

definition grainRequest :: "params \<Rightarrow> buffer \<Rightarrow> real \<Rightarrow> real \<Rightarrow> rng \<Rightarrow> grain_call \<times> rng" where
  \<comment> \<open>one round of the loop in \<open>_triggerGrainForSlot\<close>, up to the call of \<open>createGrain\<close>\<close>
  "grainRequest p buf now lfoStartTime r =
     (let spreadAmount = spread p / 100;
          lfoTime = now - lfoStartTime;
          (lfoVal, r1) = getLFOValue (lfoWaveform p) (lfoRate p) lfoTime r;
          grainDurSec = grainSize p / 1000;
          baseStartPosition0 = (startOffset p / 100) * buffer_duration buf;
          baseStartPosition = baseStartPosition0
            + lfoVal * (buffer_duration buf - baseStartPosition0 - grainDurSec);
          (positionSec0, r2) =
            (if spreadAmount > 0 then
               let positionSpread = spreadAmount * buffer_duration buf * 0.5;
                   randomOffset = (r1 0 - 0.5) * 2 * positionSpread
               in (baseStartPosition + randomOffset, rng_rest r1)
             else (baseStartPosition, r1));
          positionSec = max 0 (min (buffer_duration buf - grainDurSec)
            (positionSec0 + (r2 0 - 0.5) * 0.05));
          r3 = rng_rest r2;
          (spreadParams, r4) =
            (if spreadAmount > 0 then
               let pitchSpreadRange = spreadAmount * 0.5;
                   pitchVariation = 1 + (r3 0 - 0.5) * 2 * pitchSpreadRange;
                   panSpreadRange = spreadAmount * 2;
                   panVariation = (rng_rest r3 0 - 0.5) * 2 * panSpreadRange
               in (p\<lparr>playbackRate := max 0.1 (min 2.0 (playbackRate p * pitchVariation)),
                     panControl := max (- 1) (min 1 (panControl p + panVariation))\<rparr>,
                   rng_rest (rng_rest r3))
             else (p, r3));
          (grainStartTime, r5) =
            (if spreadAmount > 0 then
               let timingSpread = spreadAmount * 0.02
               in (now + (r4 0 - 0.5) * 2 * timingSpread, rng_rest r4)
             else (now, r4))
      in (\<lparr>call_params = spreadParams, call_startTime = grainStartTime,
            call_duration = grainDurSec, call_position = positionSec\<rparr>, r5))"

fun triggerLoop ::
  "nat \<Rightarrow> nat \<Rightarrow> (nat \<Rightarrow> platform) \<Rightarrow> buffer \<Rightarrow> params \<Rightarrow> real \<Rightarrow> rng \<Rightarrow> manager
     \<Rightarrow> grain_call list \<times> (unit, manager) js" where
  \<comment> \<open>\<open>for (let i = 0; i < maxGrains; i++)\<close>: the first argument counts the rounds left,
      the second is \<open>i\<close>; the result lists the calls of \<open>createGrain\<close> made\<close>
  "triggerLoop 0 i pfs buf p lfoStartTime r m = ([], (Inr (), m))"
| "triggerLoop (Suc n) i pfs buf p lfoStartTime r m =
     (let pf = pfs i;
          (call, r') = grainRequest p buf (pf_currentTime pf) lfoStartTime r
      in case createGrain pf buf (call_params call) (call_startTime call)
                (call_duration call) (call_position call) m of
           (Inl e, m') \<Rightarrow> ([call], (Inl e, m'))
         | (Inr _, m') \<Rightarrow>
             (case triggerLoop n (Suc i) pfs buf p lfoStartTime r' m' of
                (calls, res) \<Rightarrow> (call # calls, res)))"


section \<open>Invariants\<close>

text \<open>
  The predicates of this section are used to state and prove the properties of the
  manager; they are not part of the program.
\<close>

definition neutral :: "node_triple \<Rightarrow> bool" where
  \<comment> \<open>the state of a node triple that may enter the pool\<close>
  "neutral t \<longleftrightarrow>
     gain_value (gainNode t) = 1 \<and> gain_events (gainNode t) = [] \<and>
     frequency_value (filterNode t) = DEFAULT_FILTER_FREQUENCY \<and>
     frequency_events (filterNode t) = [] \<and>
     pan_value (pannerNode t) = 0 \<and> pan_events (pannerNode t) = []"

definition pool_neutral :: "node_pool \<Rightarrow> bool" where
  \<comment> \<open>every node in the pool is neutral\<close>
  "pool_neutral pool \<longleftrightarrow>
     (\<forall>n \<in> set (gainNodes pool). gain_value n = 1 \<and> gain_events n = []) \<and>
     (\<forall>n \<in> set (filterNodes pool).
        frequency_value n = DEFAULT_FILTER_FREQUENCY \<and> frequency_events n = []) \<and>
     (\<forall>n \<in> set (pannerNodes pool). pan_value n = 0 \<and> pan_events n = [])"

definition timelines_ok :: "node_triple \<Rightarrow> bool" where
  \<comment> \<open>a gain timeline holds only times the platform accepts; nothing is ever scheduled on the filter and the panner\<close>
  "timelines_ok t \<longleftrightarrow>
     (\<forall>e \<in> set (gain_events (gainNode t)). 0 \<le> event_time e) \<and>
     frequency_events (filterNode t) = [] \<and> pan_events (pannerNode t) = []"

definition core :: "manager \<Rightarrow> bool" where
  \<comment> \<open>the active set and the \<open>isActive\<close> flags agree\<close>
  "core m \<longleftrightarrow>
     distinct (activeVoices m) \<and>
     (\<forall>g. g \<in> set (activeVoices m) \<longleftrightarrow> g < length (grains m) \<and> isActive (grains m ! g)) \<and>
     (\<forall>gr \<in> set (grains m). timelines_ok (nodes gr)) \<and>
     pool_neutral (nodePool m)"

definition qinv :: "manager \<Rightarrow> bool" where
  \<comment> \<open>no grain is queued twice, every entry is a grain, every active grain is queued\<close>
  "qinv m \<longleftrightarrow>
     distinct (map fst (cleanupQueue m)) \<and>
     (\<forall>g \<in> fst ` set (cleanupQueue m). g < length (grains m)) \<and>
     set (activeVoices m) \<subseteq> fst ` set (cleanupQueue m)"

definition inv :: "manager \<Rightarrow> bool" where
  \<comment> \<open>what holds in every state the manager reaches\<close>
  "inv m \<longleftrightarrow> core m \<and> qinv m"

definition capacity_ok :: "manager \<Rightarrow> bool" where
  \<comment> \<open>\<open>getActiveVoiceCount() <= maxVoices\<close>\<close>
  "capacity_ok m \<longleftrightarrow> int (length (activeVoices m)) \<le> maxVoices m"

definition frame :: "manager \<Rightarrow> manager \<Rightarrow> bool" where
  \<comment> \<open>what a teardown leaves alone\<close>
  "frame m m' \<longleftrightarrow>
     maxVoices m' = maxVoices m \<and> lastCleanup m' = lastCleanup m \<and>
     masterGain m' = masterGain m \<and> cleanupQueue m' = cleanupQueue m \<and>
     length (grains m') = length (grains m) \<and>
     (\<forall>h. endTime (grains m' ! h) = endTime (grains m ! h)) \<and>
     (\<forall>h. nodes (grains m' ! h) = nodes (grains m ! h)) \<and>
     (\<forall>h. isActive (grains m' ! h) \<longrightarrow> isActive (grains m ! h))"

definition fades :: "manager \<Rightarrow> manager \<Rightarrow> bool" where
  \<comment> \<open>grain objects persist and no \<open>isActive\<close> flag goes from false to true\<close>
  "fades m m' \<longleftrightarrow> length (grains m) \<le> length (grains m') \<and>
     (\<forall>h < length (grains m). isActive (grains m' ! h) \<longrightarrow> isActive (grains m ! h))"

definition due :: "platform \<Rightarrow> manager \<Rightarrow> nat list" where
  \<comment> \<open>the grains that \<open>performCleanup\<close> collects in \<open>toCleanup\<close>\<close>
  "due pf m = rev (map fst (filter (\<lambda>e. snd e \<le> pf_currentTime pf) (cleanupQueue m)))"

definition start_throws :: "platform \<Rightarrow> real \<Rightarrow> real \<Rightarrow> real \<Rightarrow> bool" where
  \<comment> \<open>a guarded step of \<open>createOptimizedGrain\<close> throws\<close>
  "start_throws pf st d pos \<longleftrightarrow>
     pf_source_throws pf \<or> pf_graph_throws pf \<or> st < 0 \<or> pos < 0 \<or> d < 0"

definition afterPeriodic :: "platform \<Rightarrow> manager \<Rightarrow> manager" where
  \<comment> \<open>the state of \<open>createGrain\<close> after the periodic cleanup\<close>
  "afterPeriodic pf m =
     (let m1 = m\<lparr>lastCleanup := Suc (lastCleanup m)\<rparr>
      in if lastCleanup m1 mod CLEANUP_INTERVAL = 0 then snd (performCleanup pf m1) else m1)"

definition afterEviction :: "platform \<Rightarrow> manager \<Rightarrow> manager" where
  \<comment> \<open>the state of \<open>createGrain\<close> after the capacity check, before the grain is built\<close>
  "afterEviction pf m =
     (let m2 = afterPeriodic pf m
      in if int (length (activeVoices m2)) \<ge> maxVoices m2
         then snd (forceCleanupOldest pf m2) else m2)"

definition control_points :: "automation list \<Rightarrow> (real \<times> real) list" where
  \<comment> \<open>the (time, gain) pairs of a timeline\<close>
  "control_points evs = map (\<lambda>e. (event_time e, event_value e)) evs"

definition reset_nodes :: "node_triple \<Rightarrow> node_triple" where
  \<comment> \<open>gain 1, filter frequency at its default, pan 0, nothing scheduled, disconnected\<close>
  "reset_nodes t =
     \<lparr>gainNode = (gainNode t)\<lparr>gain_events := [], gain_value := 1, gain_connected := False\<rparr>,
      filterNode = (filterNode t)\<lparr>frequency_events := [],
        frequency_value := DEFAULT_FILTER_FREQUENCY, filter_connected := False\<rparr>,
      pannerNode = (pannerNode t)\<lparr>pan_events := [], pan_value := 0,
        panner_connected := False\<rparr>\<rparr>"

section \<open>Scenario inputs\<close>

text \<open>
  The inputs at which the properties are evaluated. \<open>default_params\<close> holds the
  initial knob values of \<open>PER_SLOT_CONTROL_SPECS\<close>; on a \<open>quiet_platform\<close> no call
  throws and \<open>Math.random()\<close> in \<open>createOptimizedGrain\<close> draws 0.5.
\<close>

definition never :: "nat \<Rightarrow> bool" where
  "never g = False"

definition quiet_platform :: "real \<Rightarrow> platform" where
  "quiet_platform now = \<lparr>pf_currentTime = now, pf_random = 0.5, pf_source_throws = False,
     pf_graph_throws = False, pf_stop_throws = never, pf_reset_throws = never\<rparr>"



definition default_params :: params where
  "default_params = \<lparr>startOffset = 0, playbackRate = 1.0, cutoffFreq = 100, attackTime = 3,
     decayTime = 200, envelopeShape = 0, grainSize = 350, grainsPerStep = 10, grainVoices = 4,
     lfoWaveform = 0, lfoRate = 0.5, spread = 0, panControl = 0, panRandom = 0.1,
     volume = 0.7\<rparr>"

definition test_buffer :: buffer where
  "test_buffer = \<lparr>buffer_duration = 10\<rparr>"

definition grain_A :: action where
  \<comment> \<open>grain A of the eviction scenario: ends at 1.0\<close>
  "grain_A = CreateGrain (quiet_platform 0) test_buffer default_params 0 1 0"

definition grain_B :: action where
  \<comment> \<open>grain B: ends at 0.5\<close>
  "grain_B = CreateGrain (quiet_platform 0) test_buffer default_params 0 0.5 0"

definition grain_C :: action where
  \<comment> \<open>grain C: ends at 2.0\<close>
  "grain_C = CreateGrain (quiet_platform 0) test_buffer default_params 0 2 0"

definition linear_scenario :: params where
  \<comment> \<open>shape 0, attack 0.1 s, decay 0.2 s, peak gain \<open>0.2 * 2.5 = 0.5\<close>\<close>
  "linear_scenario = default_params\<lparr>envelopeShape := 0, attackTime := 100, decayTime := 200,
     volume := 2.5\<rparr>"

definition exponential_scenario :: params where
  "exponential_scenario = default_params\<lparr>envelopeShape := 1, attackTime := 100,
     decayTime := 200, volume := 1\<rparr>"

definition sigmoid_scenario :: params where
  "sigmoid_scenario = default_params\<lparr>envelopeShape := 3\<rparr>"

definition gaussian_scenario :: params where
  "gaussian_scenario = default_params\<lparr>envelopeShape := 5\<rparr>"


definition always :: "nat \<Rightarrow> bool" where
  "always g = True"

definition teardown_fails_platform :: platform where
  \<comment> \<open>\<open>source.stop()\<close> throws for every grain; nothing else does\<close>
  "teardown_fails_platform = (quiet_platform 0)\<lparr>pf_stop_throws := always\<rparr>"

definition failing_platform :: platform where
  \<comment> \<open>every platform call that can throw does\<close>
  "failing_platform = \<lparr>pf_currentTime = 5, pf_random = 0.5, pf_source_throws = True,
     pf_graph_throws = True, pf_stop_throws = always, pf_reset_throws = always\<rparr>"

definition negative_attack_params :: params where
  \<comment> \<open>an attack time for which the first ramp of the envelope ends before time 0\<close>
  "negative_attack_params = default_params\<lparr>attackTime := - 1000\<rparr>"

section \<open>Auxiliary lemmas\<close>

subsection \<open>Tearing down one grain\<close>

lemma frame_refl: "frame m m"
  by (simp add: frame_def)

lemma frame_trans: "frame m m' \<Longrightarrow> frame m' m'' \<Longrightarrow> frame m m''"
  by (simp add: frame_def)

lemma cancel_nonneg: "\<forall>e \<in> set evs. 0 \<le> event_time e \<Longrightarrow> cancelScheduledValues 0 evs = []"
  by (induction evs) (auto simp: cancelScheduledValues_def)

lemma returnNodesToPool_fst: "fst (returnNodesToPool b t m) = Inr ()"
  by (simp add: returnNodesToPool_def try_catch_def Let_def)

lemma returnNodesToPool_snd:
  "snd (returnNodesToPool b t m) = m\<lparr>nodePool := nodePool (snd (returnNodesToPool b t m))\<rparr>"
  by (simp add: returnNodesToPool_def try_catch_def Let_def)

lemma returnNodesToPool_neutral:
  "pool_neutral (nodePool m) \<Longrightarrow> timelines_ok t \<Longrightarrow>
   pool_neutral (nodePool (snd (returnNodesToPool b t m)))"
  by (auto simp: returnNodesToPool_def try_catch_def Let_def pool_neutral_def timelines_ok_def
      cancel_nonneg)

lemma cleanupGrain_fst: "g < length (grains m) \<Longrightarrow> fst (cleanupGrain pf g m) = Inr ()"
  by (simp add: cleanupGrain_def try_catch_def Let_def returnNodesToPool_def)

lemma cleanupGrain_frame: "frame m (snd (cleanupGrain pf g m))"
  by (auto simp: cleanupGrain_def try_catch_def Let_def returnNodesToPool_def stopSource_def
      frame_def nth_list_update)

lemma cleanupGrain_active:
  "core m \<Longrightarrow> activeVoices (snd (cleanupGrain pf g m)) = removeAll g (activeVoices m)"
  by (auto simp: cleanupGrain_def try_catch_def Let_def returnNodesToPool_def stopSource_def
      core_def)

lemma cleanupGrain_inactive:
  "g < length (grains m) \<Longrightarrow> \<not> isActive (grains (snd (cleanupGrain pf g m)) ! g)"
  by (auto simp: cleanupGrain_def try_catch_def Let_def returnNodesToPool_def stopSource_def)

lemma cleanupGrain_others:
  "h \<noteq> g \<Longrightarrow> isActive (grains (snd (cleanupGrain pf g m)) ! h) = isActive (grains m ! h)"
  by (auto simp: cleanupGrain_def try_catch_def Let_def returnNodesToPool_def stopSource_def)

lemma cleanupGrain_pool:
  assumes "core m"
  shows "pool_neutral (nodePool (snd (cleanupGrain pf g m)))"
proof (cases "g < length (grains m) \<and> isActive (grains m ! g)")
  case False
  then show ?thesis using assms by (auto simp: cleanupGrain_def core_def)
next
  case True
  define m3 where "m3 = snd (try_catch (stopSource pf g
     (m\<lparr>grains := (grains m)[g := (grains m ! g)\<lparr>isActive := False\<rparr>],
        activeVoices := removeAll g (activeVoices m)\<rparr>)) ())"
  have pool: "nodePool m3 = nodePool m"
    by (simp add: m3_def try_catch_def stopSource_def)
  have nd: "nodes (grains m3 ! g) = nodes (grains m ! g)"
    using True by (simp add: m3_def try_catch_def stopSource_def)
  have "grains m ! g \<in> set (grains m)" using True by simp
  then have tl: "timelines_ok (nodes (grains m3 ! g))"
    using assms nd by (simp add: core_def)
  have "snd (cleanupGrain pf g m) =
        snd (returnNodesToPool (pf_reset_throws pf g) (nodes (grains m3 ! g)) m3)"
    using True
    by (simp add: cleanupGrain_def Let_def m3_def try_catch_def returnNodesToPool_def)
  moreover have "pool_neutral (nodePool m3)" using assms pool by (simp add: core_def)
  ultimately show ?thesis using tl by (simp add: returnNodesToPool_neutral)
qed

lemma cleanupGrain_core:
  assumes "core m"
  shows "core (snd (cleanupGrain pf g m))"
proof -
  let ?m' = "snd (cleanupGrain pf g m)"
  have fr: "frame m ?m'" by (rule cleanupGrain_frame)
  have av: "activeVoices ?m' = removeAll g (activeVoices m)"
    using assms by (rule cleanupGrain_active)
  have d: "distinct (activeVoices ?m')" using assms av by (simp add: core_def distinct_removeAll)
  have mem: "h \<in> set (activeVoices ?m') \<longleftrightarrow> h < length (grains ?m') \<and> isActive (grains ?m' ! h)" for h
  proof (cases "h = g")
    case True
    then show ?thesis using av fr cleanupGrain_inactive [of g m pf]
      by (auto simp: frame_def)
  next
    case False
    then show ?thesis using av fr assms cleanupGrain_others [of h g pf m]
      by (auto simp: frame_def core_def)
  qed
  have tl: "\<forall>gr \<in> set (grains ?m'). timelines_ok (nodes gr)"
  proof
    fix gr assume "gr \<in> set (grains ?m')"
    then obtain h where h: "h < length (grains ?m')" "gr = grains ?m' ! h"
      by (auto simp: in_set_conv_nth)
    then have "nodes gr = nodes (grains m ! h)" "h < length (grains m)"
      using fr by (auto simp: frame_def)
    then show "timelines_ok (nodes gr)" using assms by (simp add: core_def)
  qed
  show ?thesis using d mem tl cleanupGrain_pool [OF assms] by (simp add: core_def)
qed

subsection \<open>Iterating over grains and the cleanup queue\<close>

lemma try_catch_unit: "try_catch r () = (Inr (), snd r)"
  by (cases r; cases "fst r") (auto simp: try_catch_def)

lemma try_catch_Inr: "\<exists>a. fst (try_catch r d) = Inr a"
  by (cases r; cases "fst r") (auto simp: try_catch_def)

lemma bind_js_Inr: "bind_js (Inr a, s) f = f a s"
  by (simp add: bind_js_def)

lemma cleanupGrain_eq:
  "g < length (grains m) \<Longrightarrow> cleanupGrain pf g m = (Inr (), snd (cleanupGrain pf g m))"
  using cleanupGrain_fst [of g m pf] by (cases "cleanupGrain pf g m") simp

lemma cleanupGrain_invalid: "\<not> g < length (grains m) \<Longrightarrow> cleanupGrain pf g m = (Inl TypeError, m)"
  by (simp add: cleanupGrain_def)

lemma forEach_core: "core m \<Longrightarrow> core (snd (forEach_cleanupGrain pf gs m))"
proof (induction gs arbitrary: m)
  case Nil
  then show ?case by simp
next
  case (Cons g gs)
  show ?case
  proof (cases "g < length (grains m)")
    case True
    then show ?thesis
      using Cons.IH [OF cleanupGrain_core [OF Cons.prems, of pf g]]
      by (subst forEach_cleanupGrain.simps, subst cleanupGrain_eq) (simp_all add: bind_js_Inr)
  next
    case False
    then show ?thesis using Cons.prems
      by (simp add: cleanupGrain_invalid bind_js_def)
  qed
qed

lemma forEach_frame: "frame m (snd (forEach_cleanupGrain pf gs m))"
proof (induction gs arbitrary: m)
  case Nil
  then show ?case by (simp add: frame_refl)
next
  case (Cons g gs)
  show ?case
  proof (cases "g < length (grains m)")
    case True
    have "frame m (snd (cleanupGrain pf g m))" by (rule cleanupGrain_frame)
    then show ?thesis
      using Cons.IH [of "snd (cleanupGrain pf g m)"] True
      by (subst forEach_cleanupGrain.simps, subst cleanupGrain_eq)
         (auto simp: bind_js_Inr intro: frame_trans)
  next
    case False
    then show ?thesis
      by (simp add: cleanupGrain_invalid bind_js_def frame_refl)
  qed
qed

lemma forEach_valid:
  "core m \<Longrightarrow> \<forall>g \<in> set gs. g < length (grains m) \<Longrightarrow>
   fst (forEach_cleanupGrain pf gs m) = Inr () \<and>
   activeVoices (snd (forEach_cleanupGrain pf gs m)) = filter (\<lambda>h. h \<notin> set gs) (activeVoices m)"
proof (induction gs arbitrary: m)
  case Nil
  then show ?case by simp
next
  case (Cons g gs)
  let ?m' = "snd (cleanupGrain pf g m)"
  have g: "g < length (grains m)" using Cons.prems by simp
  have c: "core ?m'" using Cons.prems by (simp add: cleanupGrain_core)
  have len: "length (grains ?m') = length (grains m)"
    using cleanupGrain_frame [of m pf g] by (simp add: frame_def)
  have v: "\<forall>h \<in> set gs. h < length (grains ?m')" using Cons.prems len by simp
  have av: "activeVoices ?m' = removeAll g (activeVoices m)"
    using Cons.prems by (simp add: cleanupGrain_active)
  have step: "forEach_cleanupGrain pf (g # gs) m = forEach_cleanupGrain pf gs ?m'"
    by (subst forEach_cleanupGrain.simps, subst cleanupGrain_eq [OF g]) (simp add: bind_js_Inr)
  have "filter (\<lambda>h. h \<notin> set gs) (removeAll g xs) =
        filter (\<lambda>h. h \<notin> set (g # gs)) xs" for xs
    by (induction xs) auto
  then show ?case unfolding step using Cons.IH [OF c v] av by simp
qed

lemma scanQueue_eq:
  "n \<le> length q \<Longrightarrow>
   scanQueue now n q acc =
     (filter (\<lambda>e. \<not> snd e \<le> now) (take n q) @ drop n q,
      acc @ rev (map fst (filter (\<lambda>e. snd e \<le> now) (take n q))))"
proof (induction n arbitrary: q acc)
  case 0
  then show ?case by simp
next
  case (Suc n)
  then have n: "n < length q" by simp
  let ?q' = "take n q @ drop (Suc n) q"
  have l: "n \<le> length ?q'" using n by simp
  have t: "take n ?q' = take n q" using n by simp
  have d: "drop n ?q' = drop (Suc n) q" using n by simp
  show ?case
  proof (cases "snd (q ! n) \<le> now")
    case True
    then show ?thesis using Suc.IH [OF l, of "acc @ [fst (q ! n)]"] n
      by (simp add: Let_def t d take_Suc_conv_app_nth)
  next
    case False
    then show ?thesis using Suc.IH [of q acc] n
      by (simp add: Let_def take_Suc_conv_app_nth Cons_nth_drop_Suc)
  qed
qed

lemma scanQueue_full:
  "scanQueue now (length q) q [] =
     (filter (\<lambda>e. \<not> snd e \<le> now) q, rev (map fst (filter (\<lambda>e. snd e \<le> now) q)))"
  by (simp add: scanQueue_eq)

lemma performCleanup_eq:
  "performCleanup pf m =
     (Inr (), snd (forEach_cleanupGrain pf (due pf m)
        (m\<lparr>cleanupQueue := filter (\<lambda>e. \<not> snd e \<le> pf_currentTime pf) (cleanupQueue m)\<rparr>)))"
  by (simp add: performCleanup_def Let_def scanQueue_full try_catch_unit due_def)

lemma core_queue_update: "core (m\<lparr>cleanupQueue := q\<rparr>) = core m"
  by (simp add: core_def)

lemma core_lastCleanup_update: "core (m\<lparr>lastCleanup := q\<rparr>) = core m"
  by (simp add: core_def)

lemma performCleanup_core: "core m \<Longrightarrow> core (snd (performCleanup pf m))"
  by (simp add: performCleanup_eq forEach_core core_queue_update)

lemma performCleanup_queue:
  "cleanupQueue (snd (performCleanup pf m)) =
     filter (\<lambda>e. \<not> snd e \<le> pf_currentTime pf) (cleanupQueue m)"
  using forEach_frame [of "m\<lparr>cleanupQueue := filter (\<lambda>e. \<not> snd e \<le> pf_currentTime pf) (cleanupQueue m)\<rparr>" pf "due pf m"]
  by (simp add: performCleanup_eq frame_def)

lemma performCleanup_active:
  assumes "core m" "\<forall>g \<in> fst ` set (cleanupQueue m). g < length (grains m)"
  shows "activeVoices (snd (performCleanup pf m)) =
     filter (\<lambda>h. h \<notin> set (due pf m)) (activeVoices m)"
proof -
  let ?m0 = "m\<lparr>cleanupQueue := filter (\<lambda>e. \<not> snd e \<le> pf_currentTime pf) (cleanupQueue m)\<rparr>"
  have c: "core ?m0" using assms(1) by (simp add: core_queue_update)
  have v: "\<forall>g \<in> set (due pf m). g < length (grains ?m0)"
    using assms(2) by (auto simp: due_def)
  show ?thesis using forEach_valid [OF c v, of pf] by (simp add: performCleanup_eq)
qed

lemma performCleanup_frame_grains:
  "length (grains (snd (performCleanup pf m))) = length (grains m) \<and>
   maxVoices (snd (performCleanup pf m)) = maxVoices m \<and>
   lastCleanup (snd (performCleanup pf m)) = lastCleanup m \<and>
   (\<forall>h. endTime (grains (snd (performCleanup pf m)) ! h) = endTime (grains m ! h)) \<and>
   (\<forall>h. isActive (grains (snd (performCleanup pf m)) ! h) \<longrightarrow> isActive (grains m ! h))"
  using forEach_frame [of "m\<lparr>cleanupQueue := filter (\<lambda>e. \<not> snd e \<le> pf_currentTime pf) (cleanupQueue m)\<rparr>" pf "due pf m"]
  by (simp add: performCleanup_eq frame_def)

subsection \<open>The oldest grain\<close>

lemma scanOldest_Some:
  "\<exists>g. scanOldest gs xs (Some o') (Some (endTime (gs ! o'))) = Some g \<and>
       (g = o' \<or> g \<in> set xs) \<and> endTime (gs ! g) \<le> endTime (gs ! o') \<and>
       (\<forall>h \<in> set xs. endTime (gs ! g) \<le> endTime (gs ! h))"
proof (induction xs arbitrary: o')
  case Nil
  then show ?case by simp
next
  case (Cons x xs)
  show ?case
  proof (cases "endTime (gs ! x) < endTime (gs ! o')")
    case True
    then show ?thesis using Cons.IH [of x] by auto
  next
    case False
    then show ?thesis using Cons.IH [of o'] by auto
  qed
qed

lemma scanOldest_nonempty:
  "xs \<noteq> [] \<Longrightarrow>
   \<exists>g. scanOldest gs xs None None = Some g \<and> g \<in> set xs \<and>
       (\<forall>h \<in> set xs. endTime (gs ! g) \<le> endTime (gs ! h))"
proof (cases xs)
  case Nil
  assume "xs \<noteq> []"
  with Nil show ?thesis by simp
next
  case (Cons x rest)
  show ?thesis using scanOldest_Some [of gs rest x] Cons by auto
qed

lemma forceCleanupOldest_empty: "activeVoices m = [] \<Longrightarrow> forceCleanupOldest pf m = (Inr (), m)"
  by (simp add: forceCleanupOldest_def try_catch_def)

lemma forceCleanupOldest_evicts:
  assumes "core m" "activeVoices m \<noteq> []"
  shows "\<exists>g \<in> set (activeVoices m).
     (\<forall>h \<in> set (activeVoices m). endTime (grains m ! g) \<le> endTime (grains m ! h)) \<and>
     forceCleanupOldest pf m = (Inr (), snd (cleanupGrain pf g m))"
proof -
  obtain g where g: "scanOldest (grains m) (activeVoices m) None None = Some g"
    "g \<in> set (activeVoices m)"
    "\<forall>h \<in> set (activeVoices m). endTime (grains m ! g) \<le> endTime (grains m ! h)"
    using scanOldest_nonempty [OF assms(2)] by blast
  have "g < length (grains m)" using assms(1) g(2) by (simp add: core_def)
  then have "forceCleanupOldest pf m = (Inr (), snd (cleanupGrain pf g m))"
    using g(1) by (simp add: forceCleanupOldest_def try_catch_unit)
  then show ?thesis using g by blast
qed

subsection \<open>Building a grain\<close>

lemma getPooledNodes_snd:
  "snd (getPooledNodes m) = m\<lparr>nodePool := nodePool (snd (getPooledNodes m))\<rparr>"
  by (simp add: getPooledNodes_def Let_def)

lemma getPooledNodes_pool:
  "pool_neutral (nodePool m) \<Longrightarrow> pool_neutral (nodePool (snd (getPooledNodes m)))"
  by (auto simp: getPooledNodes_def Let_def pool_neutral_def dest: in_set_butlastD)

lemma getPooledNodes_neutral:
  "pool_neutral (nodePool m) \<Longrightarrow> neutral (fst (getPooledNodes m))"
  by (auto simp: getPooledNodes_def Let_def pool_neutral_def neutral_def createGain_def
      createBiquadFilter_def createStereoPanner_def DEFAULT_FILTER_FREQUENCY_def)

lemma schedule_nonneg:
  "\<forall>e \<in> set timeline. 0 \<le> event_time e \<Longrightarrow>
   \<forall>e \<in> set (snd (schedule cs timeline)). 0 \<le> event_time e"
proof (induction cs arbitrary: timeline)
  case Nil
  then show ?case by simp
next
  case (Cons c cs)
  show ?case
  proof (cases "automation_ok c")
    case True
    then have "0 \<le> event_time c" by (simp add: automation_ok_def)
    then have "\<forall>e \<in> set (timeline @ [c]). 0 \<le> event_time e"
      using Cons.prems by auto
    then have "\<forall>e \<in> set (snd (schedule cs (timeline @ [c]))). 0 \<le> event_time e"
      by (rule Cons.IH)
    moreover have "schedule (c # cs) timeline = schedule cs (timeline @ [c])"
      using True by simp
    ultimately show ?thesis by (simp only:)
  next
    case False
    then have "schedule (c # cs) timeline = (Inl RangeError, timeline)" by simp
    then show ?thesis using Cons.prems by (simp only: snd_conv)
  qed
qed

lemma applyOptimizedEnvelope_events:
  "gain_events (snd (applyOptimizedEnvelope g st d p)) =
     snd (schedule (envelopeCalls st d p) (gain_events g))"
  by (cases "schedule (envelopeCalls st d p) (gain_events g)")
     (simp add: applyOptimizedEnvelope_def try_catch_unit)

lemma createOptimizedGrain_fails:
  assumes "start_throws pf st d pos"
  shows "fst (createOptimizedGrain pf buf p st d pos m) = Inr None \<and>
         frame m (snd (createOptimizedGrain pf buf p st d pos m)) \<and>
         grains (snd (createOptimizedGrain pf buf p st d pos m)) = grains m \<and>
         activeVoices (snd (createOptimizedGrain pf buf p st d pos m)) = activeVoices m \<and>
         (pool_neutral (nodePool m) \<longrightarrow>
            pool_neutral (nodePool (snd (createOptimizedGrain pf buf p st d pos m))))"
proof (cases "pf_source_throws pf")
  case True
  then show ?thesis
    by (simp add: createOptimizedGrain_def try_catch_def frame_refl)
next
  case False
  obtain t m1 where g: "getPooledNodes m = (t, m1)" by (cases "getPooledNodes m")
  have m1: "m1 = m\<lparr>nodePool := nodePool m1\<rparr>" using getPooledNodes_snd [of m] g by simp
  have "createOptimizedGrain pf buf p st d pos m = (Inr None, m1)"
    using False assms g
    by (simp add: createOptimizedGrain_def try_catch_def Let_def start_throws_def)
  moreover have "frame m m1" by (subst m1) (simp add: frame_def)
  moreover have "grains m1 = grains m" "activeVoices m1 = activeVoices m"
    by (subst m1, simp)+
  moreover have "pool_neutral (nodePool m) \<longrightarrow> pool_neutral (nodePool m1)"
    using getPooledNodes_pool [of m] g by simp
  ultimately show ?thesis by simp
qed

lemma createOptimizedGrain_succeeds:
  assumes "\<not> start_throws pf st d pos"
  shows "\<exists>gr pool. createOptimizedGrain pf buf p st d pos m =
           (Inr (Some (length (grains m))), m\<lparr>grains := grains m @ [gr], nodePool := pool\<rparr>) \<and>
         isActive gr \<and> endTime gr = st + d \<and>
         (pool_neutral (nodePool m) \<longrightarrow> pool_neutral pool \<and> timelines_ok (nodes gr))"
proof -
  obtain t m1 where g: "getPooledNodes m = (t, m1)" by (cases "getPooledNodes m")
  have m1: "m1 = m\<lparr>nodePool := nodePool m1\<rparr>" using getPooledNodes_snd [of m] g by simp
  define gn where "gn = snd (applyOptimizedEnvelope (gainNode t) st d p)"
  define gr where "gr = \<lparr>
      source = \<lparr>src_buffer = buf, src_playbackRate = playbackRate p,
        src_started = Some (st, pos, d), src_stopped = False, src_connected = True\<rparr>,
      nodes = \<lparr>gainNode = gn\<lparr>gain_connected := True\<rparr>,
        filterNode = (filterNode t)\<lparr>filter_type := Highpass,
          frequency_value := cutoffFreq p, filter_connected := True\<rparr>,
        pannerNode = (pannerNode t)\<lparr>pan_value := max (- 1) (min 1
          (panControl p + (pf_random pf - 0.5) * or_default (panRandom p) 0)),
          panner_connected := True\<rparr>\<rparr>,
      endTime = st + d, isActive = True\<rparr>"
  have "createOptimizedGrain pf buf p st d pos m =
          (Inr (Some (length (grains m1))), m1\<lparr>grains := grains m1 @ [gr]\<rparr>)"
    using assms g
    by (simp add: createOptimizedGrain_def try_catch_def Let_def start_throws_def gr_def gn_def)
  moreover have "grains m1 = grains m" by (subst m1) simp
  moreover have "m1\<lparr>grains := grains m @ [gr]\<rparr> = m\<lparr>grains := grains m @ [gr], nodePool := nodePool m1\<rparr>"
    by (subst m1) simp
  ultimately have eq: "createOptimizedGrain pf buf p st d pos m =
      (Inr (Some (length (grains m))), m\<lparr>grains := grains m @ [gr], nodePool := nodePool m1\<rparr>)"
    by simp
  have "pool_neutral (nodePool m1) \<and> timelines_ok (nodes gr)" if pn: "pool_neutral (nodePool m)"
  proof -
    have n: "neutral t" using getPooledNodes_neutral [OF pn] g by simp
    have "\<forall>e \<in> set (gain_events gn). 0 \<le> event_time e"
      unfolding gn_def applyOptimizedEnvelope_events
      using n by (intro schedule_nonneg) (simp add: neutral_def)
    then have "timelines_ok (nodes gr)" using n by (simp add: gr_def timelines_ok_def neutral_def)
    then show ?thesis using getPooledNodes_pool [OF pn] g by simp
  qed
  moreover have "isActive gr" "endTime gr = st + d" by (simp_all add: gr_def)
  ultimately show ?thesis using eq by blast
qed

subsection \<open>The steps of createGrain\<close>

lemma forceCleanupOldest_eq: "forceCleanupOldest pf m = (Inr (), snd (forceCleanupOldest pf m))"
  by (simp add: forceCleanupOldest_def try_catch_unit)

lemma createGrain_unfold:
  "createGrain pf buf p st d pos m =
     (case createOptimizedGrain pf buf p st d pos (afterEviction pf m) of
        (Inr (Some g), m4) \<Rightarrow>
          (Inr (Some g), scheduleCleanup g (st + d + CLEANUP_DELAY)
             (m4\<lparr>activeVoices := set_add g (activeVoices m4)\<rparr>))
      | (Inr None, m4) \<Rightarrow> (Inr None, m4)
      | (Inl e, m4) \<Rightarrow> (Inr None, m4))"
proof -
  let ?m1 = "m\<lparr>lastCleanup := Suc (lastCleanup m)\<rparr>"
  have a: "(if lastCleanup ?m1 mod CLEANUP_INTERVAL = 0 then performCleanup pf ?m1
            else (Inr (), ?m1)) = (Inr (), afterPeriodic pf m)"
    by (simp add: afterPeriodic_def Let_def performCleanup_eq)
  have b: "(if int (length (activeVoices (afterPeriodic pf m))) \<ge> maxVoices (afterPeriodic pf m)
            then forceCleanupOldest pf (afterPeriodic pf m)
            else (Inr (), afterPeriodic pf m)) = (Inr (), afterEviction pf m)"
    using forceCleanupOldest_eq [of pf "afterPeriodic pf m"]
    by (simp add: afterEviction_def Let_def)
  show ?thesis
    unfolding createGrain_def Let_def a bind_js_Inr b
    by (cases "createOptimizedGrain pf buf p st d pos (afterEviction pf m)")
       (auto simp: bind_js_def try_catch_def split: sum.splits option.splits)
qed

lemma createGrain_fails:
  assumes "start_throws pf st d pos"
  shows "createGrain pf buf p st d pos m =
           (Inr None, snd (createOptimizedGrain pf buf p st d pos (afterEviction pf m)))"
  using createOptimizedGrain_fails [OF assms, of buf p "afterEviction pf m"]
  by (cases "createOptimizedGrain pf buf p st d pos (afterEviction pf m)")
     (simp add: createGrain_unfold)

lemma createGrain_succeeds:
  assumes "\<not> start_throws pf st d pos" "core (afterEviction pf m)"
  shows "\<exists>gr pool. createGrain pf buf p st d pos m =
           (Inr (Some (length (grains (afterEviction pf m)))),
            (afterEviction pf m)\<lparr>grains := grains (afterEviction pf m) @ [gr],
               nodePool := pool,
               activeVoices := activeVoices (afterEviction pf m) @
                 [length (grains (afterEviction pf m))],
               cleanupQueue := cleanupQueue (afterEviction pf m) @
                 [(length (grains (afterEviction pf m)), st + d + CLEANUP_DELAY)]\<rparr>) \<and>
         isActive gr \<and> endTime gr = st + d \<and> pool_neutral pool \<and> timelines_ok (nodes gr)"
proof -
  let ?m3 = "afterEviction pf m"
  obtain gr pool where c: "createOptimizedGrain pf buf p st d pos ?m3 =
       (Inr (Some (length (grains ?m3))), ?m3\<lparr>grains := grains ?m3 @ [gr], nodePool := pool\<rparr>)"
    and g: "isActive gr" "endTime gr = st + d"
    and n: "pool_neutral (nodePool ?m3) \<longrightarrow> pool_neutral pool \<and> timelines_ok (nodes gr)"
    using createOptimizedGrain_succeeds [OF assms(1), of buf p ?m3] by blast
  have nin: "length (grains ?m3) \<notin> set (activeVoices ?m3)"
    using assms(2) by (auto simp: core_def)
  have "createGrain pf buf p st d pos m =
           (Inr (Some (length (grains ?m3))),
            ?m3\<lparr>grains := grains ?m3 @ [gr], nodePool := pool,
               activeVoices := activeVoices ?m3 @ [length (grains ?m3)],
               cleanupQueue := cleanupQueue ?m3 @
                 [(length (grains ?m3), st + d + CLEANUP_DELAY)]\<rparr>)"
    using nin by (simp add: createGrain_unfold c scheduleCleanup_def set_add_def)
  moreover have "pool_neutral pool \<and> timelines_ok (nodes gr)"
    using n assms(2) by (simp add: core_def)
  ultimately show ?thesis using g by blast
qed

lemma forceCleanupOldest_core: "core m \<Longrightarrow> core (snd (forceCleanupOldest pf m))"
proof (cases "activeVoices m = []")
  case True
  assume "core m"
  then show ?thesis using True by (simp add: forceCleanupOldest_empty)
next
  case False
  assume c: "core m"
  obtain g where "forceCleanupOldest pf m = (Inr (), snd (cleanupGrain pf g m))"
    using forceCleanupOldest_evicts [OF c False, of pf] by blast
  then show ?thesis using cleanupGrain_core [OF c, of pf g] by simp
qed

lemma forceCleanupOldest_frame: "frame m (snd (forceCleanupOldest pf m))"
proof (cases "scanOldest (grains m) (activeVoices m) None None")
  case None
  then show ?thesis by (simp add: forceCleanupOldest_def try_catch_def frame_refl)
next
  case (Some g)
  then have "snd (forceCleanupOldest pf m) = snd (cleanupGrain pf g m)"
    by (simp add: forceCleanupOldest_def try_catch_unit)
  then show ?thesis by (simp add: cleanupGrain_frame)
qed

lemma length_removeAll_distinct:
  "distinct xs \<Longrightarrow> g \<in> set xs \<Longrightarrow> Suc (length (removeAll g xs)) = length xs"
  by (induction xs) auto

lemma forceCleanupOldest_length:
  assumes "core m" "activeVoices m \<noteq> []"
  shows "Suc (length (activeVoices (snd (forceCleanupOldest pf m)))) = length (activeVoices m)"
proof -
  obtain g where g: "g \<in> set (activeVoices m)"
    "forceCleanupOldest pf m = (Inr (), snd (cleanupGrain pf g m))"
    using forceCleanupOldest_evicts [OF assms, of pf] by blast
  have "activeVoices (snd (forceCleanupOldest pf m)) = removeAll g (activeVoices m)"
    using g(2) cleanupGrain_active [OF assms(1), of pf g] by simp
  then show ?thesis using g(1) assms(1) by (simp add: length_removeAll_distinct core_def)
qed

lemma forceCleanupOldest_subset:
  "core m \<Longrightarrow> set (activeVoices (snd (forceCleanupOldest pf m))) \<subseteq> set (activeVoices m)"
proof (cases "activeVoices m = []")
  case True
  then show ?thesis by (simp add: forceCleanupOldest_empty)
next
  case False
  assume c: "core m"
  obtain g where "forceCleanupOldest pf m = (Inr (), snd (cleanupGrain pf g m))"
    using forceCleanupOldest_evicts [OF c False, of pf] by blast
  then show ?thesis using cleanupGrain_active [OF c, of pf g] by auto
qed

lemma qinv_frame:
  assumes "qinv m" "frame m m'" "set (activeVoices m') \<subseteq> set (activeVoices m)"
  shows "qinv m'"
  using assms by (auto simp: qinv_def frame_def)

subsection \<open>Preservation of the invariants\<close>

lemma performCleanup_qinv:
  assumes "core m" "qinv m"
  shows "qinv (snd (performCleanup pf m))"
proof -
  let ?m' = "snd (performCleanup pf m)"
  let ?keep = "\<lambda>e::nat \<times> real. \<not> snd e \<le> pf_currentTime pf"
  have v: "\<forall>g \<in> fst ` set (cleanupQueue m). g < length (grains m)"
    using assms(2) by (simp add: qinv_def)
  have q: "cleanupQueue ?m' = filter ?keep (cleanupQueue m)" by (rule performCleanup_queue)
  have a: "activeVoices ?m' = filter (\<lambda>h. h \<notin> set (due pf m)) (activeVoices m)"
    using assms(1) v by (rule performCleanup_active)
  have l: "length (grains ?m') = length (grains m)"
    using performCleanup_frame_grains [of pf m] by simp
  have d: "distinct (map fst (cleanupQueue ?m'))"
    using assms(2) by (simp add: q qinv_def distinct_map_filter)
  have i: "\<forall>g \<in> fst ` set (cleanupQueue ?m'). g < length (grains ?m')"
    using v by (auto simp: q l)
  have s: "set (activeVoices ?m') \<subseteq> fst ` set (cleanupQueue ?m')"
  proof
    fix h assume "h \<in> set (activeVoices ?m')"
    then have h: "h \<in> set (activeVoices m)" "h \<notin> set (due pf m)" by (auto simp: a)
    then obtain t where t: "(h, t) \<in> set (cleanupQueue m)"
      using assms(2) by (auto simp: qinv_def)
    then have "\<not> t \<le> pf_currentTime pf" using h(2) by (force simp: due_def)
    then have "(h, t) \<in> set (cleanupQueue ?m')" using t by (simp add: q)
    then show "h \<in> fst ` set (cleanupQueue ?m')" by force
  qed
  show ?thesis using d i s by (simp add: qinv_def)
qed

lemma performCleanup_length:
  assumes "core m" "qinv m"
  shows "length (activeVoices (snd (performCleanup pf m))) \<le> length (activeVoices m)"
proof -
  have "\<forall>g \<in> fst ` set (cleanupQueue m). g < length (grains m)"
    using assms(2) by (simp add: qinv_def)
  then show ?thesis using performCleanup_active [OF assms(1), of pf] by simp
qed

lemma qinv_lastCleanup_update: "qinv (m\<lparr>lastCleanup := n\<rparr>) = qinv m"
  by (simp add: qinv_def)

lemma afterPeriodic_inv:
  assumes "inv m"
  shows "inv (afterPeriodic pf m) \<and> maxVoices (afterPeriodic pf m) = maxVoices m \<and>
         length (activeVoices (afterPeriodic pf m)) \<le> length (activeVoices m)"
proof -
  let ?m1 = "m\<lparr>lastCleanup := Suc (lastCleanup m)\<rparr>"
  have c: "core ?m1" and q: "qinv ?m1"
    using assms by (simp_all add: inv_def core_lastCleanup_update qinv_lastCleanup_update)
  show ?thesis
  proof (cases "lastCleanup ?m1 mod CLEANUP_INTERVAL = 0")
    case True
    then have e: "afterPeriodic pf m = snd (performCleanup pf ?m1)"
      by (simp add: afterPeriodic_def Let_def)
    show ?thesis unfolding e
      using performCleanup_core [OF c, of pf] performCleanup_qinv [OF c q, of pf]
        performCleanup_length [OF c q, of pf] performCleanup_frame_grains [of pf ?m1]
      by (simp add: inv_def)
  next
    case False
    then have e: "afterPeriodic pf m = ?m1" by (simp add: afterPeriodic_def Let_def)
    show ?thesis unfolding e using c q by (simp add: inv_def)
  qed
qed

lemma afterEviction_inv:
  assumes "inv m"
  shows "inv (afterEviction pf m) \<and> maxVoices (afterEviction pf m) = maxVoices m"
proof -
  let ?m2 = "afterPeriodic pf m"
  have i2: "inv ?m2" and mv: "maxVoices ?m2 = maxVoices m"
    using afterPeriodic_inv [OF assms, of pf] by simp_all
  show ?thesis
  proof (cases "int (length (activeVoices ?m2)) \<ge> maxVoices ?m2")
    case True
    then have e: "afterEviction pf m = snd (forceCleanupOldest pf ?m2)"
      by (simp add: afterEviction_def Let_def)
    have c: "core ?m2" and q: "qinv ?m2" using i2 by (simp_all add: inv_def)
    have "qinv (snd (forceCleanupOldest pf ?m2))"
      using q forceCleanupOldest_frame forceCleanupOldest_subset [OF c] by (rule qinv_frame)
    moreover have "maxVoices (snd (forceCleanupOldest pf ?m2)) = maxVoices ?m2"
      using forceCleanupOldest_frame [of ?m2 pf] by (simp add: frame_def)
    ultimately show ?thesis unfolding e
      using forceCleanupOldest_core [OF c, of pf] mv by (simp add: inv_def)
  next
    case False
    then have e: "afterEviction pf m = ?m2" by (simp add: afterEviction_def Let_def)
    show ?thesis unfolding e using i2 mv by simp
  qed
qed

lemma afterEviction_room:
  assumes "inv m" "capacity_ok m" "1 \<le> maxVoices m"
  shows "int (length (activeVoices (afterEviction pf m))) < maxVoices m"
proof -
  let ?m2 = "afterPeriodic pf m"
  have i2: "inv ?m2" and mv: "maxVoices ?m2 = maxVoices m"
    and le: "length (activeVoices ?m2) \<le> length (activeVoices m)"
    using afterPeriodic_inv [OF assms(1), of pf] by simp_all
  show ?thesis
  proof (cases "int (length (activeVoices ?m2)) \<ge> maxVoices ?m2")
    case True
    then have e: "afterEviction pf m = snd (forceCleanupOldest pf ?m2)"
      by (simp add: afterEviction_def Let_def)
    have c: "core ?m2" using i2 by (simp add: inv_def)
    have ne: "activeVoices ?m2 \<noteq> []" using True mv assms(3) by auto
    have "Suc (length (activeVoices (snd (forceCleanupOldest pf ?m2)))) = length (activeVoices ?m2)"
      using c ne by (rule forceCleanupOldest_length)
    then show ?thesis unfolding e using le assms(2) by (simp add: capacity_ok_def)
  next
    case False
    then have e: "afterEviction pf m = ?m2" by (simp add: afterEviction_def Let_def)
    show ?thesis unfolding e using False mv by simp
  qed
qed

lemma core_append_grain:
  assumes "core m" "isActive gr" "timelines_ok (nodes gr)" "pool_neutral pool"
  shows "core (m\<lparr>grains := grains m @ [gr], nodePool := pool,
            activeVoices := activeVoices m @ [length (grains m)], cleanupQueue := q\<rparr>)"
  using assms by (auto simp: core_def nth_append)

lemma qinv_append_grain:
  assumes "qinv m"
  shows "qinv (m\<lparr>grains := grains m @ [gr], nodePool := pool,
            activeVoices := activeVoices m @ [length (grains m)],
            cleanupQueue := cleanupQueue m @ [(length (grains m), t)]\<rparr>)"
  using assms by (auto simp: qinv_def)

lemma createGrain_inv:
  assumes "inv m"
  shows "inv (snd (createGrain pf buf p st d pos m)) \<and>
         maxVoices (snd (createGrain pf buf p st d pos m)) = maxVoices m"
proof -
  let ?m3 = "afterEviction pf m"
  have i3: "inv ?m3" and mv: "maxVoices ?m3 = maxVoices m"
    using afterEviction_inv [OF assms, of pf] by simp_all
  then have c3: "core ?m3" and q3: "qinv ?m3" by (simp_all add: inv_def)
  show ?thesis
  proof (cases "start_throws pf st d pos")
    case True
    let ?m4 = "snd (createOptimizedGrain pf buf p st d pos ?m3)"
    have f: "frame ?m3 ?m4" "grains ?m4 = grains ?m3" "activeVoices ?m4 = activeVoices ?m3"
      "pool_neutral (nodePool ?m4)"
      using createOptimizedGrain_fails [OF True, of buf p ?m3] c3 by (simp_all add: core_def)
    have "core ?m4" using c3 f by (simp add: core_def)
    moreover have "qinv ?m4" using q3 f(1) by (rule qinv_frame) (simp add: f(3))
    moreover have "maxVoices ?m4 = maxVoices m" using f(1) mv by (simp add: frame_def)
    ultimately show ?thesis by (simp add: createGrain_fails [OF True] inv_def)
  next
    case False
    obtain gr pool where e: "createGrain pf buf p st d pos m =
           (Inr (Some (length (grains ?m3))),
            ?m3\<lparr>grains := grains ?m3 @ [gr], nodePool := pool,
               activeVoices := activeVoices ?m3 @ [length (grains ?m3)],
               cleanupQueue := cleanupQueue ?m3 @
                 [(length (grains ?m3), st + d + CLEANUP_DELAY)]\<rparr>)"
      and g: "isActive gr" "pool_neutral pool" "timelines_ok (nodes gr)"
      using createGrain_succeeds [OF False c3, of buf p] by blast
    show ?thesis unfolding e snd_conv inv_def
      using core_append_grain [OF c3 g(1) g(3) g(2)] qinv_append_grain [OF q3] mv
      by simp
  qed
qed

lemma createGrain_capacity:
  assumes "inv m" "capacity_ok m" "1 \<le> maxVoices m"
  shows "capacity_ok (snd (createGrain pf buf p st d pos m))"
proof -
  let ?m3 = "afterEviction pf m"
  have i3: "inv ?m3" and mv: "maxVoices ?m3 = maxVoices m"
    using afterEviction_inv [OF assms(1), of pf] by simp_all
  then have c3: "core ?m3" by (simp add: inv_def)
  have room: "int (length (activeVoices ?m3)) < maxVoices m"
    using assms by (rule afterEviction_room)
  show ?thesis
  proof (cases "start_throws pf st d pos")
    case True
    let ?m4 = "snd (createOptimizedGrain pf buf p st d pos ?m3)"
    have f: "frame ?m3 ?m4" "activeVoices ?m4 = activeVoices ?m3"
      using createOptimizedGrain_fails [OF True, of buf p ?m3] by simp_all
    then have "maxVoices ?m4 = maxVoices m" using mv by (simp add: frame_def)
    then show ?thesis using room f(2)
      by (simp add: createGrain_fails [OF True] capacity_ok_def)
  next
    case False
    obtain gr pool where e: "createGrain pf buf p st d pos m =
           (Inr (Some (length (grains ?m3))),
            ?m3\<lparr>grains := grains ?m3 @ [gr], nodePool := pool,
               activeVoices := activeVoices ?m3 @ [length (grains ?m3)],
               cleanupQueue := cleanupQueue ?m3 @
                 [(length (grains ?m3), st + d + CLEANUP_DELAY)]\<rparr>)"
      using createGrain_succeeds [OF False c3, of buf p] by blast
    show ?thesis unfolding e snd_conv using room mv by (simp add: capacity_ok_def)
  qed
qed

lemma cleanupGrain_inv:
  assumes "inv m"
  shows "inv (snd (cleanupGrain pf g m))"
proof -
  have c: "core m" and q: "qinv m" using assms by (simp_all add: inv_def)
  have "qinv (snd (cleanupGrain pf g m))"
    using q cleanupGrain_frame by (rule qinv_frame) (simp add: cleanupGrain_active [OF c])
  then show ?thesis using cleanupGrain_core [OF c] by (simp add: inv_def)
qed

lemma stopAll_eq:
  assumes "core m"
  shows "stopAll pf m =
     (Inr (), (snd (forEach_cleanupGrain pf (activeVoices m) m))\<lparr>cleanupQueue := []\<rparr>)"
proof -
  have v: "\<forall>g \<in> set (activeVoices m). g < length (grains m)"
    using assms by (simp add: core_def)
  have "fst (forEach_cleanupGrain pf (activeVoices m) m) = Inr ()"
    using forEach_valid [OF assms v, of pf] by simp
  then show ?thesis
    by (cases "forEach_cleanupGrain pf (activeVoices m) m")
       (simp add: stopAll_def bind_js_def try_catch_def)
qed

lemma stopAll_empty:
  assumes "core m"
  shows "activeVoices (snd (stopAll pf m)) = [] \<and> cleanupQueue (snd (stopAll pf m)) = []"
proof -
  have v: "\<forall>g \<in> set (activeVoices m). g < length (grains m)"
    using assms by (simp add: core_def)
  have "activeVoices (snd (forEach_cleanupGrain pf (activeVoices m) m)) = []"
    using forEach_valid [OF assms v, of pf] by simp
  then show ?thesis by (simp add: stopAll_eq [OF assms])
qed

lemma stopAll_inv:
  assumes "inv m"
  shows "inv (snd (stopAll pf m))"
proof -
  have c: "core m" using assms by (simp add: inv_def)
  have "core (snd (stopAll pf m))"
    using forEach_core [OF c, of pf "activeVoices m"]
    by (simp add: stopAll_eq [OF c] core_queue_update)
  moreover have "qinv (snd (stopAll pf m))"
    using stopAll_empty [OF c, of pf] by (simp add: qinv_def)
  ultimately show ?thesis by (simp add: inv_def)
qed

lemma setMasterVolume_eq:
  "setMasterVolume v m = (Inr (), m\<lparr>masterGain := max 0 (min 1 v)\<rparr>)"
  by (simp add: setMasterVolume_def try_catch_def)

lemma performCleanup_inv: "inv m \<Longrightarrow> inv (snd (performCleanup pf m))"
  by (simp add: inv_def performCleanup_core performCleanup_qinv)

lemma step_inv: "inv m \<Longrightarrow> inv (step a m)"
proof (cases a)
  case (CreateGrain pf buf p st d pos)
  assume "inv m"
  then show ?thesis using createGrain_inv [of m pf buf p st d pos] CreateGrain by simp
next
  case (SourceEnded pf g)
  assume "inv m"
  then show ?thesis using SourceEnded by (simp add: cleanupGrain_inv)
next
  case (PerformCleanup pf)
  assume "inv m"
  then show ?thesis using PerformCleanup by (simp add: performCleanup_inv)
next
  case (StopAll pf)
  assume "inv m"
  then show ?thesis using StopAll by (simp add: stopAll_inv)
next
  case (SetMasterVolume v)
  assume "inv m"
  then show ?thesis using SetMasterVolume
    by (simp add: setMasterVolume_eq inv_def core_def qinv_def)
qed

lemma step_maxVoices: "inv m \<Longrightarrow> maxVoices (step a m) = maxVoices m"
proof (cases a)
  case (CreateGrain pf buf p st d pos)
  assume "inv m"
  then show ?thesis using createGrain_inv [of m pf buf p st d pos] CreateGrain by simp
next
  case (SourceEnded pf g)
  then show ?thesis using cleanupGrain_frame [of m pf g] by (simp add: frame_def)
next
  case (PerformCleanup pf)
  then show ?thesis using performCleanup_frame_grains [of pf m] by simp
next
  case (StopAll pf)
  assume "inv m"
  then have "core m" by (simp add: inv_def)
  then show ?thesis using StopAll forEach_frame [of m pf "activeVoices m"]
    by (simp add: stopAll_eq frame_def)
next
  case (SetMasterVolume v)
  then show ?thesis by (simp add: setMasterVolume_eq)
qed

lemma step_capacity:
  assumes "inv m" "capacity_ok m" "1 \<le> maxVoices m"
  shows "capacity_ok (step a m)"
proof (cases a)
  case (CreateGrain pf buf p st d pos)
  then show ?thesis using createGrain_capacity [OF assms] by simp
next
  case (SourceEnded pf g)
  have c: "core m" using assms(1) by (simp add: inv_def)
  have "int (length (removeAll g (activeVoices m))) \<le> int (length (activeVoices m))"
    by (simp add: removeAll_filter_not_eq)
  moreover have "int (length (activeVoices m)) \<le> maxVoices m"
    using assms(2) by (simp add: capacity_ok_def)
  ultimately have "int (length (removeAll g (activeVoices m))) \<le> maxVoices m"
    by (rule order_trans)
  then show ?thesis using SourceEnded cleanupGrain_active [OF c, of pf g]
      cleanupGrain_frame [of m pf g]
    by (simp add: capacity_ok_def frame_def)
next
  case (PerformCleanup pf)
  have c: "core m" and q: "qinv m" using assms(1) by (simp_all add: inv_def)
  show ?thesis using PerformCleanup assms(2) performCleanup_length [OF c q, of pf]
      performCleanup_frame_grains [of pf m]
    by (simp add: capacity_ok_def)
next
  case (StopAll pf)
  have c: "core m" using assms(1) by (simp add: inv_def)
  show ?thesis using StopAll stopAll_empty [OF c, of pf] step_maxVoices [OF assms(1), of a] assms(3)
    by (simp add: capacity_ok_def)
next
  case (SetMasterVolume v)
  then show ?thesis using assms(2) by (simp add: setMasterVolume_eq capacity_ok_def)
qed

lemma constructor_inv: "inv (constructor mv)"
  by (auto simp: inv_def core_def qinv_def constructor_def preAllocateNodes_def pool_neutral_def
      createGain_def createBiquadFilter_def createStereoPanner_def DEFAULT_FILTER_FREQUENCY_def)

lemma run_inv_gen:
  "inv m \<Longrightarrow> inv (run acts m) \<and> maxVoices (run acts m) = maxVoices m \<and>
     (capacity_ok m \<longrightarrow> 1 \<le> maxVoices m \<longrightarrow> capacity_ok (run acts m))"
proof (induction acts arbitrary: m)
  case Nil
  then show ?case by (simp add: run_def)
next
  case (Cons a acts)
  have i: "inv (step a m)" using Cons.prems by (rule step_inv)
  have mv: "maxVoices (step a m) = maxVoices m" using Cons.prems by (rule step_maxVoices)
  have r: "run (a # acts) m = run acts (step a m)" by (simp add: run_def)
  show ?case unfolding r using Cons.IH [OF i] mv step_capacity [OF Cons.prems, of a]
    by auto
qed

lemma run_inv: "inv (run acts (constructor mv))"
  using run_inv_gen [OF constructor_inv] by simp

lemma run_capacity:
  "1 \<le> mv \<Longrightarrow> capacity_ok (run acts (constructor mv))"
  using run_inv_gen [OF constructor_inv, of acts mv]
  by (simp add: capacity_ok_def constructor_def)

subsection \<open>Evaluation of the scenarios\<close>

lemmas manager_eval = run_def createGrain_def constructor_def preAllocateNodes_def Let_def
  bind_js_def try_catch_def CLEANUP_INTERVAL_def forceCleanupOldest_def
  createOptimizedGrain_def getPooledNodes_def quiet_platform_def never_def
  scheduleCleanup_def set_add_def cleanupGrain_def returnNodesToPool_def stopSource_def
  numeral_2_eq_2 default_params_def

lemma run_A_B:
  "activeVoices (run [grain_A, grain_B] (constructor 2)) = [0, 1] \<and>
   endTime (grains (run [grain_A, grain_B] (constructor 2)) ! 0) = 1 \<and>
   endTime (grains (run [grain_A, grain_B] (constructor 2)) ! 1) = 0.5 \<and>
   length (grains (run [grain_A, grain_B] (constructor 2))) = 2"
  by (simp add: manager_eval grain_A_def grain_B_def)

lemma run_A_B_C:
  "activeVoices (run [grain_A, grain_B, grain_C] (constructor 2)) = [0, 2]"
  by (simp add: manager_eval grain_A_def grain_B_def grain_C_def)

lemma run_A_B_one:
  "activeVoices (run [grain_A, grain_B] (constructor 1)) = [1] \<and>
   cleanupQueue (run [grain_A, grain_B] (constructor 1)) = [(0, 11 / 10), (1, 6 / 10)] \<and>
   \<not> isActive (grains (run [grain_A, grain_B] (constructor 1)) ! 0)"
  by (simp add: manager_eval grain_A_def grain_B_def CLEANUP_DELAY_def)

lemma run_A_zero:
  "activeVoices (run [grain_A] (constructor 0)) = [0]"
  by (simp add: manager_eval grain_A_def)

subsection \<open>Queue entries and the active flag\<close>

lemma distinct_fst_count:
  "distinct (map fst q) \<Longrightarrow> length (filter (\<lambda>e. fst e = g) q) \<le> 1"
proof (induction q)
  case Nil
  then show ?case by simp
next
  case (Cons e q)
  show ?case
  proof (cases "fst e = g")
    case True
    then have "g \<notin> fst ` set q" using Cons.prems by auto
    then have "filter (\<lambda>e. fst e = g) q = []" by (auto simp: filter_empty_conv)
    then show ?thesis using True by simp
  next
    case False
    then show ?thesis using Cons by simp
  qed
qed

lemma member_fst_count:
  "g \<in> fst ` set q \<Longrightarrow> 1 \<le> length (filter (\<lambda>e. fst e = g) q)"
  by (induction q) auto

lemma createGrain_grains:
  "\<exists>gs. grains (snd (createGrain pf buf p st d pos m)) = grains (afterEviction pf m) @ gs"
proof (cases "start_throws pf st d pos")
  case True
  then show ?thesis
    using createOptimizedGrain_fails [OF True, of buf p "afterEviction pf m"]
    by (simp add: createGrain_fails)
next
  case False
  obtain gr pool where c: "createOptimizedGrain pf buf p st d pos (afterEviction pf m) =
       (Inr (Some (length (grains (afterEviction pf m)))),
        (afterEviction pf m)\<lparr>grains := grains (afterEviction pf m) @ [gr], nodePool := pool\<rparr>)"
    using createOptimizedGrain_succeeds [OF False, of buf p "afterEviction pf m"] by blast
  show ?thesis by (simp add: createGrain_unfold c scheduleCleanup_def)
qed

lemma frame_fades: "frame m m' \<Longrightarrow> fades m m'"
  by (simp add: frame_def fades_def)

lemma fades_trans: "fades m m' \<Longrightarrow> fades m' m'' \<Longrightarrow> fades m m''"
  by (auto simp: fades_def)

lemma afterPeriodic_fades: "fades m (afterPeriodic pf m)"
  using performCleanup_frame_grains [of pf "m\<lparr>lastCleanup := Suc (lastCleanup m)\<rparr>"]
  by (simp add: afterPeriodic_def Let_def fades_def)

lemma afterEviction_fades: "fades m (afterEviction pf m)"
proof -
  have "fades (afterPeriodic pf m) (afterEviction pf m)"
    using forceCleanupOldest_frame [of "afterPeriodic pf m" pf]
    by (auto simp: afterEviction_def Let_def frame_fades) (simp add: fades_def)
  then show ?thesis using afterPeriodic_fades by (rule fades_trans [rotated])
qed

lemma createGrain_fades: "fades m (snd (createGrain pf buf p st d pos m))"
proof -
  obtain gs where "grains (snd (createGrain pf buf p st d pos m)) = grains (afterEviction pf m) @ gs"
    using createGrain_grains by blast
  then have "fades (afterEviction pf m) (snd (createGrain pf buf p st d pos m))"
    by (simp add: fades_def nth_append)
  then show ?thesis using afterEviction_fades [of m pf] by (rule fades_trans [rotated])
qed

lemma stopAll_fades: "fades m (snd (stopAll pf m))"
proof -
  have "frame m (snd (forEach_cleanupGrain pf (activeVoices m) m))" by (rule forEach_frame)
  then show ?thesis
    by (cases "forEach_cleanupGrain pf (activeVoices m) m";
        cases "fst (forEach_cleanupGrain pf (activeVoices m) m)")
       (auto simp: stopAll_def bind_js_def try_catch_def fades_def frame_def)
qed

lemma step_fades: "fades m (step a m)"
proof (cases a)
  case (CreateGrain pf buf p st d pos)
  then show ?thesis by (simp add: createGrain_fades)
next
  case (SourceEnded pf g)
  then show ?thesis by (simp add: frame_fades cleanupGrain_frame)
next
  case (PerformCleanup pf)
  then show ?thesis using performCleanup_frame_grains [of pf m] by (simp add: fades_def)
next
  case (StopAll pf)
  then show ?thesis by (simp add: stopAll_fades)
next
  case (SetMasterVolume v)
  then show ?thesis by (simp add: setMasterVolume_eq fades_def)
qed

lemma run_fades: "fades m (run acts m)"
proof (induction acts arbitrary: m)
  case Nil
  then show ?case by (simp add: run_def fades_def)
next
  case (Cons a acts)
  have "run (a # acts) m = run acts (step a m)" by (simp add: run_def)
  then show ?case using fades_trans [OF step_fades Cons.IH] by simp
qed

lemma acquire_after_release:
  "fst (getPooledNodes (snd (returnNodesToPool False nds m))) =
     \<lparr>gainNode = (gainNode nds)\<lparr>
         gain_events := cancelScheduledValues 0 (gain_events (gainNode nds)),
         gain_value := 1, gain_connected := False\<rparr>,
       filterNode = (filterNode nds)\<lparr>
         frequency_events := cancelScheduledValues 0 (frequency_events (filterNode nds)),
         frequency_value := DEFAULT_FILTER_FREQUENCY, filter_connected := False\<rparr>,
       pannerNode = (pannerNode nds)\<lparr>
         pan_events := cancelScheduledValues 0 (pan_events (pannerNode nds)),
         pan_value := 0, panner_connected := False\<rparr>\<rparr>"
  by (simp add: returnNodesToPool_def getPooledNodes_def try_catch_def Let_def)

lemma release_throws: "returnNodesToPool True nds m = (Inr (), m)"
  by (simp add: returnNodesToPool_def try_catch_def)

subsection \<open>Envelopes\<close>

lemma schedule_all_ok:
  "\<forall>c \<in> set cs. automation_ok c \<Longrightarrow> schedule cs timeline = (Inr (), timeline @ cs)"
proof (induction cs arbitrary: timeline)
  case Nil
  then show ?case by simp
next
  case (Cons c cs)
  have "schedule cs (timeline @ [c]) = (Inr (), (timeline @ [c]) @ cs)"
    using Cons.prems by (intro Cons.IH) simp
  then show ?case using Cons.prems by simp
qed

lemma applyOptimizedEnvelope_ok:
  assumes "\<forall>c \<in> set (envelopeCalls st d p). automation_ok c" "gain_events g = []"
  shows "gain_events (snd (applyOptimizedEnvelope g st d p)) = envelopeCalls st d p"
  using assms by (simp add: applyOptimizedEnvelope_events schedule_all_ok)

lemma linear_calls:
  "envelopeCalls 0 1 linear_scenario =
     [SetValueAtTime 0 0, LinearRampToValueAtTime (1 / 2) (1 / 10),
      SetValueAtTime (1 / 2) (8 / 10), LinearRampToValueAtTime 0 1]"
  by (simp add: envelopeCalls_def linear_scenario_def default_params_def envelopePeakGain_def
      or_default_def BASE_GAIN_def Let_def)

lemma linear_events:
  "gain_events (snd (applyOptimizedEnvelope createGain 0 1 linear_scenario)) =
     [SetValueAtTime 0 0, LinearRampToValueAtTime (1 / 2) (1 / 10),
      SetValueAtTime (1 / 2) (8 / 10), LinearRampToValueAtTime 0 1]"
proof -
  have "\<forall>c \<in> set (envelopeCalls 0 1 linear_scenario). automation_ok c"
    unfolding linear_calls by (simp add: automation_ok_def)
  then show ?thesis
    using applyOptimizedEnvelope_ok [of 0 1 linear_scenario createGain] linear_calls
    by (simp add: createGain_def)
qed

lemma ramp_time_nonneg:
  "0 \<le> b \<Longrightarrow> 0 \<le> a \<Longrightarrow> 0 \<le> b + a * (real i / real n)"
  by (simp add: add_nonneg_nonneg)

lemma log_ok:
  assumes "0 \<le> st" "0 \<le> a" "0 \<le> s" "0 \<le> d - a - s"
  shows "\<forall>c \<in> set (applyLogarithmicEnvelope st a s d pk). automation_ok c"
proof -
  have b: "0 \<le> st + a + s" using assms by simp
  show ?thesis
    using assms ramp_time_nonneg [OF assms(1) assms(2)] ramp_time_nonneg [OF b assms(4)]
    by (auto simp: applyLogarithmicEnvelope_def Let_def automation_ok_def)
qed

lemma sigmoid_ok:
  assumes "0 \<le> st" "0 \<le> a" "0 \<le> s" "0 \<le> d - a - s"
  shows "\<forall>c \<in> set (applySigmoidEnvelope st a s d pk). automation_ok c"
proof -
  have b: "0 \<le> st + a + s" using assms by simp
  show ?thesis
    using assms ramp_time_nonneg [OF assms(1) assms(2)] ramp_time_nonneg [OF b assms(4)]
    by (auto simp: applySigmoidEnvelope_def Let_def automation_ok_def)
qed

lemma cosine_ok:
  assumes "0 \<le> st" "0 \<le> a" "0 \<le> s" "0 \<le> d - a - s"
  shows "\<forall>c \<in> set (applyCosineEnvelope st a s d pk). automation_ok c"
proof -
  have b: "0 \<le> st + a + s" using assms by simp
  show ?thesis
    using assms ramp_time_nonneg [OF assms(1) assms(2)] ramp_time_nonneg [OF b assms(4)]
    by (auto simp: applyCosineEnvelope_def Let_def automation_ok_def)
qed

lemma gaussian_ok:
  assumes "0 \<le> st" "0 \<le> d"
  shows "\<forall>c \<in> set (applyGaussianEnvelope st d pk). automation_ok c"
  using assms by (auto simp: applyGaussianEnvelope_def Let_def automation_ok_def)

lemma hanning_ok:
  assumes "0 \<le> st" "0 \<le> d"
  shows "\<forall>c \<in> set (applyHanningEnvelope st d pk). automation_ok c"
  using assms ramp_time_nonneg [OF assms]
  by (auto simp: applyHanningEnvelope_def Let_def automation_ok_def)

lemma triangular_ok:
  assumes "0 \<le> st" "0 \<le> a" "0 \<le> s" "0 \<le> d"
  shows "\<forall>c \<in> set (applyTriangularEnvelope st a s d pk). automation_ok c"
  using assms by (auto simp: applyTriangularEnvelope_def automation_ok_def)

lemma peakGain_pos: "0 \<le> volume p \<Longrightarrow> 0 < envelopePeakGain p"
  by (simp add: envelopePeakGain_def or_default_def BASE_GAIN_def)

lemma peakGain_less_one: "volume p \<le> 1 \<Longrightarrow> envelopePeakGain p < 1"
  by (simp add: envelopePeakGain_def or_default_def BASE_GAIN_def)

lemma envelopeCalls_ok:
  assumes "0 \<le> st" "0 < d" "0 \<le> attackTime p" "0 \<le> decayTime p" "0 \<le> volume p"
  shows "\<forall>c \<in> set (envelopeCalls st d p). automation_ok c"
proof -
  define a where "a = min (d * 0.3) (attackTime p / 1000)"
  define r where "r = min (d * 0.7) (decayTime p / 1000)"
  define s where "s = max 0 (d - a - r)"
  have a: "0 \<le> a" using assms by (simp add: a_def)
  have s: "0 \<le> s" by (simp add: s_def)
  have "a \<le> d * 0.3" by (simp add: a_def)
  then have rt: "0 \<le> d - a - s" using assms(2) assms(4) by (auto simp: s_def r_def max_def)
  have pk: "envelopePeakGain p \<noteq> 0" using peakGain_pos [OF assms(5)] by simp
  have d: "0 \<le> d" using assms(2) by simp
  have lin: "\<forall>c \<in> set ([LinearRampToValueAtTime (envelopePeakGain p) (st + a)]
            @ (if s > 0 then [SetValueAtTime (envelopePeakGain p) (st + a + s)] else [])
            @ [LinearRampToValueAtTime 0 (st + d)]). automation_ok c"
    using assms(1) a s d by (auto simp: automation_ok_def)
  have ex: "\<forall>c \<in> set ([ExponentialRampToValueAtTime (envelopePeakGain p) (st + a)]
            @ (if s > 0 then [SetValueAtTime (envelopePeakGain p) (st + a + s)] else [])
            @ [ExponentialRampToValueAtTime 0.001 (st + d)]). automation_ok c"
    using assms(1) a s d pk by (auto simp: automation_ok_def)
  have first: "automation_ok (SetValueAtTime 0 st)" using assms(1) by (simp add: automation_ok_def)
  show ?thesis
    unfolding envelopeCalls_def Let_def a_def [symmetric] r_def [symmetric] s_def [symmetric]
    using first lin ex log_ok [OF assms(1) a s rt] sigmoid_ok [OF assms(1) a s rt]
      cosine_ok [OF assms(1) a s rt] gaussian_ok [OF assms(1) d] hanning_ok [OF assms(1) d]
      triangular_ok [OF assms(1) a s d]
    by (simp del: set_append)
qed

lemma last_ramps: "last (xs @ ys @ map f [0..<Suc n]) = f n"
  by simp

lemma last_ramps': "last (map f [0..<Suc n]) = f n"
  by simp

lemma log_last:
  "last (applyLogarithmicEnvelope st a s d pk) = LinearRampToValueAtTime 0 (st + d)"
  unfolding applyLogarithmicEnvelope_def Let_def last_ramps
  by (simp add: ENVELOPE_STEPS_LOGARITHMIC_def)

lemma sigmoid_last:
  "last (applySigmoidEnvelope st a s d pk) = LinearRampToValueAtTime (pk / (1 + exp 6)) (st + d)"
  unfolding applySigmoidEnvelope_def Let_def last_ramps
  by (simp add: ENVELOPE_STEPS_SIGMOID_def)

lemma cosine_last:
  "last (applyCosineEnvelope st a s d pk) = LinearRampToValueAtTime 0 (st + d)"
  unfolding applyCosineEnvelope_def Let_def last_ramps
  by (simp add: ENVELOPE_STEPS_COSINE_def)

lemma gaussian_last:
  assumes "d \<noteq> 0"
  shows "last (applyGaussianEnvelope st d pk) =
           LinearRampToValueAtTime (pk * exp (- (9 / 2))) (st + d)"
proof -
  have "(d - d / 2) * (d - d / 2) / (2 * (d / 6) * (d / 6)) = 9 / 2"
    using assms by (simp add: field_simps)
  then show ?thesis
    unfolding applyGaussianEnvelope_def Let_def last_ramps'
    by (simp add: ENVELOPE_STEPS_GAUSSIAN_def)
qed

lemma hanning_last:
  "last (applyHanningEnvelope st d pk) = LinearRampToValueAtTime 0 (st + d)"
  unfolding applyHanningEnvelope_def Let_def last_ramps'
  by (simp add: ENVELOPE_STEPS_HANNING_def)

lemma triangular_last:
  "last (applyTriangularEnvelope st a s d pk) = LinearRampToValueAtTime 0 (st + d)"
  by (simp add: applyTriangularEnvelope_def)

lemma exp_6_bound: "exp (6::real) < 999"
proof -
  have "exp (6::real) = exp (of_nat 6 * 1)" by simp
  also have "\<dots> = exp 1 ^ 6" by (rule exp_of_nat_mult)
  also have "\<dots> \<le> (3::real) ^ 6" by (intro power_mono exp_le) simp
  also have "\<dots> < 999" by simp
  finally show ?thesis .
qed

lemma exp_9_2_bound: "exp (9 / 2 :: real) < 1000"
proof -
  have "exp (9 / 2 :: real) \<le> exp 6" by simp
  then show ?thesis using exp_6_bound by linarith
qed

lemma sigmoid_tail: "0 < pk \<Longrightarrow> 0.001 * pk < pk / (1 + exp (6::real))"
proof -
  assume pk: "0 < pk"
  have "(1::real) / 1000 < 1 / (1 + exp 6)"
    using exp_6_bound by (intro divide_strict_left_mono) (simp_all add: add_pos_pos)
  then have "pk * (1 / 1000) < pk * (1 / (1 + exp 6))"
    using pk by (rule mult_strict_left_mono)
  then show ?thesis by simp
qed

lemma gaussian_tail: "0 < pk \<Longrightarrow> 0.001 * pk < pk * exp (- (9 / 2 :: real))"
proof -
  assume pk: "0 < pk"
  have "(1::real) / 1000 < 1 / exp (9 / 2)"
    using exp_9_2_bound by (intro divide_strict_left_mono) simp_all
  then have "(1::real) / 1000 < exp (- (9 / 2))" by (simp add: exp_minus inverse_eq_divide)
  then have "pk * (1 / 1000) < pk * exp (- (9 / 2))"
    using pk by (rule mult_strict_left_mono)
  then show ?thesis by simp
qed

lemma envelopeCalls_last:
  assumes "0 < d"
  shows "last (envelopeCalls st d p) =
     (if envelopeShape p = 1 then ExponentialRampToValueAtTime 0.001 (st + d)
      else if envelopeShape p = 3
        then LinearRampToValueAtTime (envelopePeakGain p / (1 + exp 6)) (st + d)
      else if envelopeShape p = 5
        then LinearRampToValueAtTime (envelopePeakGain p * exp (- (9 / 2))) (st + d)
      else LinearRampToValueAtTime 0 (st + d))"
proof -
  have d: "d \<noteq> 0" using assms by simp
  have ne: "applyLogarithmicEnvelope st a s d pk \<noteq> []" "applySigmoidEnvelope st a s d pk \<noteq> []"
    "applyCosineEnvelope st a s d pk \<noteq> []" "applyGaussianEnvelope st d pk \<noteq> []"
    "applyHanningEnvelope st d pk \<noteq> []" "applyTriangularEnvelope st a s d pk \<noteq> []" for a s pk
    by (simp_all add: applyLogarithmicEnvelope_def applySigmoidEnvelope_def
        applyCosineEnvelope_def applyGaussianEnvelope_def applyHanningEnvelope_def
        applyTriangularEnvelope_def Let_def)
  have tail: "last (x # xs) = last xs" if "xs \<noteq> []" for x :: automation and xs
    using that by simp
  have lin: "last ([LinearRampToValueAtTime pk t1] @ (if c then [SetValueAtTime pk t2] else [])
      @ [LinearRampToValueAtTime 0 (st + d)]) = LinearRampToValueAtTime 0 (st + d)"
    for pk t1 t2 c by simp
  have ex: "last ([ExponentialRampToValueAtTime pk t1] @ (if c then [SetValueAtTime pk t2] else [])
      @ [ExponentialRampToValueAtTime 0.001 (st + d)]) = ExponentialRampToValueAtTime 0.001 (st + d)"
    for pk t1 t2 c by simp
  consider "envelopeShape p = 0" | "envelopeShape p = 1" | "envelopeShape p = 2"
    | "envelopeShape p = 3" | "envelopeShape p = 4" | "envelopeShape p = 5"
    | "envelopeShape p = 6" | "envelopeShape p = 7"
    | "envelopeShape p \<notin> {0, 1, 2, 3, 4, 5, 6, 7}" by auto
  then show ?thesis
  proof cases
    case 1
    then show ?thesis unfolding envelopeCalls_def Let_def
      by (simp only: if_True list.simps tail lin) simp
  next
    case 2
    then show ?thesis unfolding envelopeCalls_def Let_def by (simp del: append.simps add: ex)
  next
    case 3
    then show ?thesis unfolding envelopeCalls_def Let_def by (simp add: ne log_last)
  next
    case 4
    then show ?thesis unfolding envelopeCalls_def Let_def by (simp add: ne sigmoid_last)
  next
    case 5
    then show ?thesis unfolding envelopeCalls_def Let_def by (simp add: ne cosine_last)
  next
    case 6
    then show ?thesis unfolding envelopeCalls_def Let_def by (simp add: ne gaussian_last [OF d])
  next
    case 7
    then show ?thesis unfolding envelopeCalls_def Let_def by (simp add: ne hanning_last)
  next
    case 8
    then show ?thesis unfolding envelopeCalls_def Let_def by (simp add: ne triangular_last)
  next
    case 9
    then show ?thesis unfolding envelopeCalls_def Let_def by (simp del: append.simps add: lin)
  qed
qed

lemma envelopeCalls_hd:
  "envelopeCalls st d p \<noteq> [] \<and> hd (envelopeCalls st d p) = SetValueAtTime 0 st"
  by (simp only: envelopeCalls_def Let_def list.sel list.distinct not_False_eq_True simp_thms)

lemma envelope_result:
  assumes "0 \<le> st" "0 < d" "0 \<le> attackTime p" "0 \<le> decayTime p" "0 \<le> volume p"
    "gain_events g = []"
  shows "gain_events (snd (applyOptimizedEnvelope g st d p)) = envelopeCalls st d p"
  using envelopeCalls_ok [OF assms(1-5)] assms(6) by (rule applyOptimizedEnvelope_ok)

lemma exponential_result:
  "gain_events (snd (applyOptimizedEnvelope createGain 0 1 exponential_scenario)) =
     envelopeCalls 0 1 exponential_scenario"
  by (rule envelope_result)
     (simp_all add: exponential_scenario_def default_params_def createGain_def)

subsection \<open>The trigger loop\<close>

lemma createGrain_Inr: "\<exists>r m'. createGrain pf buf p st d pos m = (Inr r, m')"
  by (cases "createOptimizedGrain pf buf p st d pos (afterEviction pf m)";
      cases "fst (createOptimizedGrain pf buf p st d pos (afterEviction pf m))")
     (auto simp: createGrain_unfold split: option.splits)

lemma triggerLoop_Suc:
  "fst (triggerLoop (Suc n) i pfs buf p l r m) =
     fst (grainRequest p buf (pf_currentTime (pfs i)) l r) #
     fst (triggerLoop n (Suc i) pfs buf p l (snd (grainRequest p buf (pf_currentTime (pfs i)) l r))
       (snd (createGrain (pfs i) buf
          (call_params (fst (grainRequest p buf (pf_currentTime (pfs i)) l r)))
          (call_startTime (fst (grainRequest p buf (pf_currentTime (pfs i)) l r)))
          (call_duration (fst (grainRequest p buf (pf_currentTime (pfs i)) l r)))
          (call_position (fst (grainRequest p buf (pf_currentTime (pfs i)) l r))) m)))"
proof -
  obtain call r' where g: "grainRequest p buf (pf_currentTime (pfs i)) l r = (call, r')"
    by (cases "grainRequest p buf (pf_currentTime (pfs i)) l r")
  obtain res m' where c: "createGrain (pfs i) buf (call_params call) (call_startTime call)
      (call_duration call) (call_position call) m = (Inr res, m')"
    using createGrain_Inr by blast
  show ?thesis
    by (simp add: g c Let_def split: prod.splits)
qed



lemma triggerLoop_calls:
  "c \<in> set (fst (triggerLoop n i pfs buf p l r m)) \<Longrightarrow>
   \<exists>j r'. c = fst (grainRequest p buf (pf_currentTime (pfs j)) l r')"
proof (induction n arbitrary: i r m)
  case 0
  then show ?case by simp
next
  case (Suc n)
  from Suc.prems show ?case
    unfolding triggerLoop_Suc
    using Suc.IH by (auto simp del: triggerLoop.simps)
qed




subsection \<open>Voice stealing at capacities of at least one\<close>

lemma createGrain_handle:
  assumes "\<not> start_throws pf st d pos"
  shows "fst (createGrain pf buf p st d pos m) = Inr (Some (length (grains (afterEviction pf m))))"
proof -
  obtain gr pool where "createOptimizedGrain pf buf p st d pos (afterEviction pf m) =
       (Inr (Some (length (grains (afterEviction pf m)))),
        (afterEviction pf m)\<lparr>grains := grains (afterEviction pf m) @ [gr], nodePool := pool\<rparr>)"
    using createOptimizedGrain_succeeds [OF assms, of buf p "afterEviction pf m"] by blast
  then show ?thesis by (simp add: createGrain_unfold)
qed

lemma voice_count_bounded:
  assumes "1 \<le> mv"
  shows "int (getActiveVoiceCount (run acts (constructor mv))) \<le> mv \<and>
    (mv \<le> int (getActiveVoiceCount (run acts (constructor mv))) \<longrightarrow>
       (\<exists>g \<in> set (activeVoices (run acts (constructor mv))).
          (\<forall>h \<in> set (activeVoices (run acts (constructor mv))).
             endTime (grains (run acts (constructor mv)) ! g)
               \<le> endTime (grains (run acts (constructor mv)) ! h)) \<and>
          forceCleanupOldest pf (run acts (constructor mv)) =
            (Inr (), snd (cleanupGrain pf g (run acts (constructor mv)))) \<and>
          int (getActiveVoiceCount (snd (forceCleanupOldest pf (run acts (constructor mv))))) < mv))"
proof -
  let ?m = "run acts (constructor mv)"
  have c: "core ?m" using run_inv [of acts mv] by (simp add: inv_def)
  have cap: "int (length (activeVoices ?m)) \<le> mv"
    using run_capacity [OF assms, of acts] run_inv_gen [OF constructor_inv, of acts mv]
    by (simp add: capacity_ok_def constructor_def)
  have ev: "\<exists>g \<in> set (activeVoices ?m).
          (\<forall>h \<in> set (activeVoices ?m). endTime (grains ?m ! g) \<le> endTime (grains ?m ! h)) \<and>
          forceCleanupOldest pf ?m = (Inr (), snd (cleanupGrain pf g ?m)) \<and>
          int (getActiveVoiceCount (snd (forceCleanupOldest pf ?m))) < mv"
    if full: "mv \<le> int (length (activeVoices ?m))"
  proof -
    have ne: "activeVoices ?m \<noteq> []" using full assms by auto
    have "Suc (length (activeVoices (snd (forceCleanupOldest pf ?m)))) = length (activeVoices ?m)"
      using c ne by (rule forceCleanupOldest_length)
    then have "int (getActiveVoiceCount (snd (forceCleanupOldest pf ?m))) < mv"
      using cap by (simp add: getActiveVoiceCount_def)
    then show ?thesis using forceCleanupOldest_evicts [OF c ne, of pf] by blast
  qed
  show ?thesis using cap ev by (simp add: getActiveVoiceCount_def)
qed

lemma createGrain_steals_voice:
  assumes "m = run acts (constructor mv)" "1 \<le> mv" "int (length (activeVoices m)) = mv"
    "Suc (lastCleanup m) mod CLEANUP_INTERVAL \<noteq> 0" "\<not> start_throws pf st d pos"
  shows "\<exists>g \<in> set (activeVoices m).
           (\<forall>h \<in> set (activeVoices m). endTime (grains m ! g) \<le> endTime (grains m ! h)) \<and>
           fst (createGrain pf buf p st d pos m) = Inr (Some (length (grains m))) \<and>
           activeVoices (snd (createGrain pf buf p st d pos m)) =
             removeAll g (activeVoices m) @ [length (grains m)]"
proof -
  let ?m1 = "m\<lparr>lastCleanup := Suc (lastCleanup m)\<rparr>"
  have i: "inv m" using run_inv [of acts mv] assms(1) by simp
  have mv: "maxVoices m = mv"
    using run_inv_gen [OF constructor_inv, of acts mv] assms(1) by (simp add: constructor_def)
  have c1: "core ?m1" using i by (simp add: inv_def core_lastCleanup_update)
  have p: "afterPeriodic pf m = ?m1" using assms(4) by (simp add: afterPeriodic_def Let_def)
  have ne: "activeVoices ?m1 \<noteq> []" using assms(2,3) by auto
  obtain g where g: "g \<in> set (activeVoices ?m1)"
    "\<forall>h \<in> set (activeVoices ?m1). endTime (grains ?m1 ! g) \<le> endTime (grains ?m1 ! h)"
    "forceCleanupOldest pf ?m1 = (Inr (), snd (cleanupGrain pf g ?m1))"
    using forceCleanupOldest_evicts [OF c1 ne, of pf] by blast
  have e: "afterEviction pf m = snd (cleanupGrain pf g ?m1)"
    using assms(3) mv g(3) by (simp add: afterEviction_def Let_def p)
  have c3: "core (afterEviction pf m)" unfolding e using c1 by (rule cleanupGrain_core)
  have len: "length (grains (afterEviction pf m)) = length (grains m)"
    unfolding e using cleanupGrain_frame [of ?m1 pf g] by (simp add: frame_def)
  have av: "activeVoices (afterEviction pf m) = removeAll g (activeVoices m)"
    unfolding e using cleanupGrain_active [OF c1, of pf g] by simp
  obtain gr pool where "createGrain pf buf p st d pos m =
           (Inr (Some (length (grains (afterEviction pf m)))),
            (afterEviction pf m)\<lparr>grains := grains (afterEviction pf m) @ [gr],
               nodePool := pool,
               activeVoices := activeVoices (afterEviction pf m) @
                 [length (grains (afterEviction pf m))],
               cleanupQueue := cleanupQueue (afterEviction pf m) @
                 [(length (grains (afterEviction pf m)), st + d + CLEANUP_DELAY)]\<rparr>)"
    using createGrain_succeeds [OF assms(5) c3, of buf p] by blast
  then have "fst (createGrain pf buf p st d pos m) = Inr (Some (length (grains m))) \<and>
           activeVoices (snd (createGrain pf buf p st d pos m)) =
             removeAll g (activeVoices m) @ [length (grains m)]"
    by (simp add: len av)
  then show ?thesis using g(1) g(2) by auto
qed

subsection \<open>The requests of a trigger without spread\<close>





subsection \<open>Release and acquire\<close>

lemma release_pool:
  "nodePool (snd (returnNodesToPool False nds m)) =
     \<lparr>gainNodes = gainNodes (nodePool m) @ [(gainNode nds)\<lparr>
         gain_events := cancelScheduledValues 0 (gain_events (gainNode nds)),
         gain_value := 1, gain_connected := False\<rparr>],
       filterNodes = filterNodes (nodePool m) @ [(filterNode nds)\<lparr>
         frequency_events := cancelScheduledValues 0 (frequency_events (filterNode nds)),
         frequency_value := DEFAULT_FILTER_FREQUENCY, filter_connected := False\<rparr>],
       pannerNodes = pannerNodes (nodePool m) @ [(pannerNode nds)\<lparr>
         pan_events := cancelScheduledValues 0 (pan_events (pannerNode nds)),
         pan_value := 0, panner_connected := False\<rparr>]\<rparr>"
  by (simp add: returnNodesToPool_def try_catch_def Let_def)

lemma reset_timelines_ok:
  assumes "timelines_ok nds"
  shows "\<lparr>gainNode = (gainNode nds)\<lparr>
         gain_events := cancelScheduledValues 0 (gain_events (gainNode nds)),
         gain_value := 1, gain_connected := False\<rparr>,
       filterNode = (filterNode nds)\<lparr>
         frequency_events := cancelScheduledValues 0 (frequency_events (filterNode nds)),
         frequency_value := DEFAULT_FILTER_FREQUENCY, filter_connected := False\<rparr>,
       pannerNode = (pannerNode nds)\<lparr>
         pan_events := cancelScheduledValues 0 (pan_events (pannerNode nds)),
         pan_value := 0, panner_connected := False\<rparr>\<rparr> = reset_nodes nds"
  using assms by (simp add: reset_nodes_def timelines_ok_def cancel_nonneg)

lemma release_pool_reachable:
  assumes "timelines_ok nds"
  shows "nodePool (snd (returnNodesToPool False nds m)) =
     \<lparr>gainNodes = gainNodes (nodePool m) @ [gainNode (reset_nodes nds)],
       filterNodes = filterNodes (nodePool m) @ [filterNode (reset_nodes nds)],
       pannerNodes = pannerNodes (nodePool m) @ [pannerNode (reset_nodes nds)]\<rparr>"
  unfolding release_pool using assms
  by (simp add: reset_nodes_def timelines_ok_def cancel_nonneg)

lemma acquire_returns_state:
  "snd (getPooledNodes (snd (returnNodesToPool False nds m))) = m"
  by (simp add: returnNodesToPool_def getPooledNodes_def try_catch_def Let_def)

lemma cleanupGrain_releases:
  assumes "g < length (grains m)" "isActive (grains m ! g)"
  shows "nodePool (snd (cleanupGrain pf g m)) =
     nodePool (snd (returnNodesToPool (pf_reset_throws pf g) (nodes (grains m ! g)) m))"
  using assms
  by (simp add: cleanupGrain_def try_catch_def Let_def returnNodesToPool_def stopSource_def)

section \<open>Claims\<close>

text \<open>
  C10: for every level, also one below 0 or above 1, \<open>setMasterVolume\<close> returns
  normally and sets the master gain to \<open>min (max level 0) 1\<close>, which lies in
  \<open>[0, 1]\<close>.
\<close>

theorem setMasterVolume_clamps:
  "fst (setMasterVolume level m) = Inr () \<and>
   masterGain (snd (setMasterVolume level m)) = min (max level 0) 1 \<and>
   0 \<le> masterGain (snd (setMasterVolume level m)) \<and>
   masterGain (snd (setMasterVolume level m)) \<le> 1"
  by (simp add: setMasterVolume_eq)

text \<open>
  C1: the number of active voices is to stay at most \<open>maxVoices\<close> after every call of
  \<open>createGrain\<close>, with the earliest-ending grain evicted before a new one is admitted
  at capacity. For a capacity of at least 1 the code does that (\<open>voice_count_bounded\<close>,
  \<open>createGrain_steals_voice\<close>). For a manager constructed with capacity 0 it does not:
  the capacity check finds no grain to evict and the new grain is admitted all the same,
  so one voice is active after the first call, and after every later call.
\<close>

theorem zero_capacity_admits_grain:
  "maxVoices (constructor 0) = 0 \<and>
   getActiveVoiceCount (run [grain_A] (constructor 0)) = 1 \<and>
   \<not> int (getActiveVoiceCount (run [grain_A] (constructor 0))) \<le> maxVoices (constructor 0) \<and>
   activeVoices (run [grain_A, grain_B] (constructor 0)) = [1]"
proof -
  have a: "maxVoices (constructor 0) = 0" by (simp add: constructor_def)
  have b: "activeVoices (run [grain_A, grain_B] (constructor 0)) = [1]"
    by (simp add: manager_eval grain_A_def grain_B_def)
  show ?thesis using a b by (simp add: getActiveVoiceCount_def run_A_zero)
qed

text \<open>
  C2: in every state the manager can reach with a non-empty active set, the forced
  eviction \<open>forceCleanupOldest\<close> removes exactly one grain, whose \<open>endTime\<close> is least
  among the active grains, and leaves every other grain as it was. In the scenario
  with \<open>maxVoices = 2\<close>, grain A (handle 0) ends at 1.0 and grain B (handle 1) at 0.5;
  creating grain C (handle 2) evicts B and leaves A and C active.
\<close>

theorem eviction_removes_earliest:
  assumes "m = run acts (constructor mv)" "activeVoices m \<noteq> []"
  shows "(\<exists>g \<in> set (activeVoices m).
           (\<forall>h \<in> set (activeVoices m). endTime (grains m ! g) \<le> endTime (grains m ! h)) \<and>
           activeVoices (snd (forceCleanupOldest pf m)) = removeAll g (activeVoices m) \<and>
           \<not> isActive (grains (snd (forceCleanupOldest pf m)) ! g) \<and>
           (\<forall>h. h \<noteq> g \<longrightarrow> isActive (grains (snd (forceCleanupOldest pf m)) ! h)
                  = isActive (grains m ! h))) \<and>
         endTime (grains (run [grain_A, grain_B] (constructor 2)) ! 0) = 1 \<and>
         endTime (grains (run [grain_A, grain_B] (constructor 2)) ! 1) = 0.5 \<and>
         activeVoices (run [grain_A, grain_B] (constructor 2)) = [0, 1] \<and>
         activeVoices (run [grain_A, grain_B, grain_C] (constructor 2)) = [0, 2]"
proof -
  have c: "core m" using run_inv [of acts mv] assms(1) by (simp add: inv_def)
  obtain g where g: "g \<in> set (activeVoices m)"
    "\<forall>h \<in> set (activeVoices m). endTime (grains m ! g) \<le> endTime (grains m ! h)"
    "forceCleanupOldest pf m = (Inr (), snd (cleanupGrain pf g m))"
    using forceCleanupOldest_evicts [OF c assms(2), of pf] by blast
  have v: "g < length (grains m)" using c g(1) by (simp add: core_def)
  have e: "snd (forceCleanupOldest pf m) = snd (cleanupGrain pf g m)" using g(3) by simp
  have "activeVoices (snd (forceCleanupOldest pf m)) = removeAll g (activeVoices m)"
    unfolding e using c by (rule cleanupGrain_active)
  moreover have "\<not> isActive (grains (snd (forceCleanupOldest pf m)) ! g)"
    unfolding e using v by (rule cleanupGrain_inactive)
  moreover have "\<forall>h. h \<noteq> g \<longrightarrow> isActive (grains (snd (forceCleanupOldest pf m)) ! h)
                  = isActive (grains m ! h)"
    unfolding e by (simp add: cleanupGrain_others)
  ultimately show ?thesis using g(1) g(2) run_A_B run_A_B_C by blast
qed

theorem eviction_removes_earliest_witness:
  "activeVoices (run [grain_A, grain_B] (constructor 2)) \<noteq> [] \<and>
   (\<exists>g \<in> set (activeVoices (run [grain_A, grain_B] (constructor 2))).
      (\<forall>h \<in> set (activeVoices (run [grain_A, grain_B] (constructor 2))).
         endTime (grains (run [grain_A, grain_B] (constructor 2)) ! g)
           \<le> endTime (grains (run [grain_A, grain_B] (constructor 2)) ! h)) \<and>
      activeVoices (snd (forceCleanupOldest (quiet_platform 0)
          (run [grain_A, grain_B] (constructor 2))))
        = removeAll g (activeVoices (run [grain_A, grain_B] (constructor 2))))"
proof -
  have ne: "activeVoices (run [grain_A, grain_B] (constructor 2)) \<noteq> []"
    by (simp add: run_A_B)
  show ?thesis
    using eviction_removes_earliest [OF refl ne, of "quiet_platform 0"] ne by blast
qed

text \<open>
  C3: \<open>cleanupGrain\<close> sets \<open>isActive\<close> to false, a second \<open>cleanupGrain\<close> on the same
  grain returns normally and changes nothing at all in the manager (active set, node
  pool, source, queue), and whatever is called afterwards the grain's \<open>isActive\<close>
  stays false: the flag goes from true to false at most once and never back.
\<close>

theorem cleanupGrain_idempotent:
  assumes "g < length (grains m)"
  shows "cleanupGrain pf' g (snd (cleanupGrain pf g m)) = (Inr (), snd (cleanupGrain pf g m)) \<and>
         \<not> isActive (grains (snd (cleanupGrain pf g m)) ! g) \<and>
         g < length (grains (run acts (snd (cleanupGrain pf g m)))) \<and>
         \<not> isActive (grains (run acts (snd (cleanupGrain pf g m))) ! g)"
proof -
  let ?m' = "snd (cleanupGrain pf g m)"
  have len: "length (grains ?m') = length (grains m)"
    using cleanupGrain_frame [of m pf g] by (simp add: frame_def)
  have off: "\<not> isActive (grains ?m' ! g)" using assms by (rule cleanupGrain_inactive)
  have "cleanupGrain pf' g ?m' = (Inr (), ?m')"
    using off len assms by (simp add: cleanupGrain_def [of pf' g])
  moreover have "g < length (grains (run acts ?m')) \<and> \<not> isActive (grains (run acts ?m') ! g)"
    using run_fades [of ?m' acts] off len assms by (auto simp: fades_def)
  ultimately show ?thesis using off by blast
qed

theorem cleanupGrain_idempotent_witness:
  "0 < length (grains (run [grain_A] (constructor 2))) \<and>
   isActive (grains (run [grain_A] (constructor 2)) ! 0) \<and>
   cleanupGrain (quiet_platform 2) 0
       (snd (cleanupGrain (quiet_platform 1) 0 (run [grain_A] (constructor 2))))
     = (Inr (), snd (cleanupGrain (quiet_platform 1) 0 (run [grain_A] (constructor 2)))) \<and>
   \<not> isActive (grains (snd (cleanupGrain (quiet_platform 1) 0
        (run [grain_A] (constructor 2)))) ! 0) \<and>
   \<not> isActive (grains (run [grain_B, grain_C]
        (snd (cleanupGrain (quiet_platform 1) 0 (run [grain_A] (constructor 2))))) ! 0)"
proof -
  have v: "0 < length (grains (run [grain_A] (constructor 2)))"
    by (simp add: manager_eval grain_A_def)
  have a: "isActive (grains (run [grain_A] (constructor 2)) ! 0)"
    by (simp add: manager_eval grain_A_def)
  show ?thesis
    using cleanupGrain_idempotent [OF v, of "quiet_platform 2" "quiet_platform 1"
        "[grain_B, grain_C]"] v a
    by blast
qed

text \<open>
  C8, as stated, fails: \<open>createGrain\<close> does not return \<open>null\<close> whenever an internal
  step throws. With an attack time that puts the first ramp before time 0 the envelope
  step throws a RangeError, and with a source whose \<open>stop()\<close> throws the teardown of
  the evicted grain throws; both times \<open>createGrain\<close> returns a grain handle.
\<close>

theorem swallowed_failure_counterexample:
  "fst (schedule (envelopeCalls 0 1 negative_attack_params) (gain_events createGain))
     = Inl RangeError \<and>
   fst (createGrain (quiet_platform 0) test_buffer negative_attack_params 0 1 0 (constructor 2))
     = Inr (Some 0) \<and>
   fst (stopSource teardown_fails_platform 0 (run [grain_A] (constructor 1)))
     = Inl PlatformError \<and>
   fst (createGrain teardown_fails_platform test_buffer default_params 0 1 0
         (run [grain_A] (constructor 1)))
     = Inr (Some 1)"
proof -
  have a: "fst (schedule (envelopeCalls 0 1 negative_attack_params) (gain_events createGain))
     = Inl RangeError"
    by (simp add: envelopeCalls_def negative_attack_params_def default_params_def Let_def
        automation_ok_def createGain_def)
  have b: "fst (createGrain (quiet_platform 0) test_buffer negative_attack_params 0 1 0
      (constructor 2)) = Inr (Some 0)"
    by (simp add: manager_eval)
  have c: "fst (stopSource teardown_fails_platform 0 (run [grain_A] (constructor 1)))
     = Inl PlatformError"
    by (simp add: stopSource_def teardown_fails_platform_def always_def)
  have d: "fst (createGrain teardown_fails_platform test_buffer default_params 0 1 0
         (run [grain_A] (constructor 1))) = Inr (Some 1)"
    by (simp add: manager_eval grain_A_def teardown_fails_platform_def always_def)
  show ?thesis using a b c d by blast
qed

text \<open>
  C8, amended: \<open>createGrain\<close> never throws and returns a grain handle or \<open>null\<close>; it
  returns \<open>null\<close> exactly when a guarded step of building the grain throws (the
  platform refuses the source or the graph, or \<open>source.start\<close> rejects a negative
  argument). A throw inside \<open>applyOptimizedEnvelope\<close> or inside a teardown is caught
  where it occurs and does not drop the new grain. \<open>applyOptimizedEnvelope\<close>,
  \<open>returnNodesToPool\<close>, \<open>performCleanup\<close>, \<open>forceCleanupOldest\<close> and \<open>stopAll\<close> never
  throw, and neither does \<open>cleanupGrain\<close> on a grain object.
\<close>

theorem failures_contained:
  "(\<exists>r. fst (createGrain pf buf p startTime duration position m) = Inr r \<and>
        (r = None \<longleftrightarrow>
           pf_source_throws pf \<or> pf_graph_throws pf \<or>
           startTime < 0 \<or> position < 0 \<or> duration < 0)) \<and>
   fst (applyOptimizedEnvelope gn startTime duration p) = Inr () \<and>
   fst (returnNodesToPool throws nds m) = Inr () \<and>
   fst (performCleanup pf m) = Inr () \<and>
   fst (forceCleanupOldest pf m) = Inr () \<and>
   fst (stopAll pf m) = Inr () \<and>
   (g < length (grains m) \<longrightarrow> fst (cleanupGrain pf g m) = Inr ())"
proof -
  have "\<exists>r. fst (createGrain pf buf p startTime duration position m) = Inr r \<and>
        (r = None \<longleftrightarrow> start_throws pf startTime duration position)"
  proof (cases "start_throws pf startTime duration position")
    case True
    then show ?thesis by (simp add: createGrain_fails)
  next
    case False
    then show ?thesis by (simp add: createGrain_handle)
  qed
  then have cg: "\<exists>r. fst (createGrain pf buf p startTime duration position m) = Inr r \<and>
        (r = None \<longleftrightarrow>
           pf_source_throws pf \<or> pf_graph_throws pf \<or>
           startTime < 0 \<or> position < 0 \<or> duration < 0)"
    by (simp add: start_throws_def)
  have ae: "fst (applyOptimizedEnvelope gn startTime duration p) = Inr ()"
    by (simp add: applyOptimizedEnvelope_def try_catch_unit)
  have pc: "fst (performCleanup pf m) = Inr ()" by (simp add: performCleanup_eq)
  have fc: "fst (forceCleanupOldest pf m) = Inr ()"
    using forceCleanupOldest_eq [of pf m] by (metis fst_conv)
  have sa: "fst (stopAll pf m) = Inr ()" by (simp add: stopAll_def try_catch_unit)
  show ?thesis
    using cg ae pc fc sa cleanupGrain_fst [of g m pf] returnNodesToPool_fst [of throws nds m]
    by blast
qed

theorem failures_contained_witness:
  "pf_source_throws failing_platform \<and>
   fst (createGrain failing_platform test_buffer default_params 0 1 0
     (run [grain_A] (constructor 2))) = Inr None \<and>
   0 < length (grains (run [grain_A] (constructor 2))) \<and>
   isActive (grains (run [grain_A] (constructor 2)) ! 0) \<and>
   pf_stop_throws failing_platform 0 \<and> pf_reset_throws failing_platform 0 \<and>
   fst (cleanupGrain failing_platform 0 (run [grain_A] (constructor 2))) = Inr () \<and>
   fst (performCleanup failing_platform (run [grain_A] (constructor 2))) = Inr ()"
proof -
  have v: "0 < length (grains (run [grain_A] (constructor 2)))"
    by (simp add: manager_eval grain_A_def)
  have a: "isActive (grains (run [grain_A] (constructor 2)) ! 0)"
    by (simp add: manager_eval grain_A_def)
  have f: "pf_source_throws failing_platform" "pf_stop_throws failing_platform 0"
    "pf_reset_throws failing_platform 0"
    by (simp_all add: failing_platform_def always_def)
  show ?thesis
    using failures_contained [of failing_platform test_buffer default_params 0 1 0
        "run [grain_A] (constructor 2)" createGain False
        "nodes (grains (run [grain_A] (constructor 2)) ! 0)" 0] v a f
    by auto
qed

text \<open>
  C9, as stated, fails: with \<open>maxVoices = 1\<close>, creating grain B evicts grain A
  (handle 0), and the entry of A is still in the cleanup queue afterwards.
\<close>

theorem evicted_entry_stays_queued:
  "\<not> isActive (grains (run [grain_A, grain_B] (constructor 1)) ! 0) \<and>
   0 \<notin> set (activeVoices (run [grain_A, grain_B] (constructor 1))) \<and>
   (0, 11 / 10) \<in> set (cleanupQueue (run [grain_A, grain_B] (constructor 1)))"
  by (simp add: run_A_B_one)

text \<open>
  C9, amended: in every reachable state each grain has at most one entry in the
  cleanup queue and each active grain exactly one; \<open>cleanupGrain\<close> and the forced
  eviction leave the queue as it is, the drain \<open>performCleanup\<close> removes exactly the
  entries whose time is at most the current time, and \<open>stopAll\<close> empties the queue.
\<close>

theorem cleanup_queue_entries:
  assumes "m = run acts (constructor mv)"
  shows "(\<forall>g. length (filter (\<lambda>e. fst e = g) (cleanupQueue m)) \<le> 1) \<and>
         (\<forall>g \<in> set (activeVoices m). length (filter (\<lambda>e. fst e = g) (cleanupQueue m)) = 1) \<and>
         cleanupQueue (snd (cleanupGrain pf g m)) = cleanupQueue m \<and>
         cleanupQueue (snd (forceCleanupOldest pf m)) = cleanupQueue m \<and>
         cleanupQueue (snd (performCleanup pf m)) =
           filter (\<lambda>e. \<not> snd e \<le> pf_currentTime pf) (cleanupQueue m) \<and>
         cleanupQueue (snd (stopAll pf m)) = []"
proof -
  have i: "inv m" using run_inv [of acts mv] assms by simp
  then have c: "core m" and q: "qinv m" by (simp_all add: inv_def)
  have d: "distinct (map fst (cleanupQueue m))" using q by (simp add: qinv_def)
  have one: "\<forall>g. length (filter (\<lambda>e. fst e = g) (cleanupQueue m)) \<le> 1"
    using distinct_fst_count [OF d] by simp
  have ex: "\<forall>g \<in> set (activeVoices m). length (filter (\<lambda>e. fst e = g) (cleanupQueue m)) = 1"
  proof
    fix g assume "g \<in> set (activeVoices m)"
    then have "g \<in> fst ` set (cleanupQueue m)" using q by (auto simp: qinv_def)
    then show "length (filter (\<lambda>e. fst e = g) (cleanupQueue m)) = 1"
      using member_fst_count [of g "cleanupQueue m"] distinct_fst_count [OF d, of g] by linarith
  qed
  have cg: "cleanupQueue (snd (cleanupGrain pf g m)) = cleanupQueue m"
    using cleanupGrain_frame [of m pf g] by (simp add: frame_def)
  have fc: "cleanupQueue (snd (forceCleanupOldest pf m)) = cleanupQueue m"
    using forceCleanupOldest_frame [of m pf] by (simp add: frame_def)
  have sa: "cleanupQueue (snd (stopAll pf m)) = []" using stopAll_empty [OF c, of pf] by simp
  show ?thesis using one ex cg fc sa performCleanup_queue [of pf m] by blast
qed

theorem cleanup_queue_entries_witness:
  "1 \<in> set (activeVoices (run [grain_A, grain_B] (constructor 1))) \<and>
   length (filter (\<lambda>e. fst e = 1) (cleanupQueue (run [grain_A, grain_B] (constructor 1)))) = 1 \<and>
   cleanupQueue (snd (forceCleanupOldest (quiet_platform 0)
       (run [grain_A, grain_B] (constructor 1))))
     = cleanupQueue (run [grain_A, grain_B] (constructor 1))"
proof -
  have a: "1 \<in> set (activeVoices (run [grain_A, grain_B] (constructor 1)))"
    by (simp add: run_A_B_one)
  show ?thesis
    using cleanup_queue_entries [OF refl, of "[grain_A, grain_B]" 1 "quiet_platform 0" 0] a
    by blast
qed

text \<open>
  C7: in every reachable state all nodes in the pool are neutral. Releasing the node
  triple of a grain appends to each of the three pool arrays the grain's node reset to
  gain 1, filter frequency \<open>DEFAULT_FILTER_FREQUENCY\<close>, pan 0, with nothing scheduled
  and disconnected; the triple acquired right after the release is this reset triple,
  and the pool is then as it was before the release. \<open>cleanupGrain\<close> of an active grain
  releases the grain's triple in this way; a release whose reset throws puts nothing
  into the pool.
\<close>

theorem released_nodes_neutral:
  assumes "m = run acts (constructor mv)" "g < length (grains m)"
  shows "pool_neutral (nodePool m) \<and>
         nodePool (snd (returnNodesToPool False (nodes (grains m ! g)) m)) =
           \<lparr>gainNodes = gainNodes (nodePool m) @ [gainNode (reset_nodes (nodes (grains m ! g)))],
            filterNodes = filterNodes (nodePool m)
              @ [filterNode (reset_nodes (nodes (grains m ! g)))],
            pannerNodes = pannerNodes (nodePool m)
              @ [pannerNode (reset_nodes (nodes (grains m ! g)))]\<rparr> \<and>
         getPooledNodes (snd (returnNodesToPool False (nodes (grains m ! g)) m)) =
           (reset_nodes (nodes (grains m ! g)), m) \<and>
         neutral (reset_nodes (nodes (grains m ! g))) \<and>
         pool_neutral (nodePool (snd (returnNodesToPool False (nodes (grains m ! g)) m))) \<and>
         returnNodesToPool True (nodes (grains m ! g)) m = (Inr (), m) \<and>
         (isActive (grains m ! g) \<longrightarrow>
            nodePool (snd (cleanupGrain pf g m)) =
              nodePool (snd (returnNodesToPool (pf_reset_throws pf g)
                (nodes (grains m ! g)) m)))"
proof -
  let ?n = "nodes (grains m ! g)"
  have c: "core m" using run_inv [of acts mv] assms(1) by (simp add: inv_def)
  then have pn: "pool_neutral (nodePool m)" by (simp add: core_def)
  have "grains m ! g \<in> set (grains m)" using assms(2) by simp
  then have tl: "timelines_ok ?n" using c by (simp add: core_def)
  have a: "nodePool (snd (returnNodesToPool False ?n m)) =
           \<lparr>gainNodes = gainNodes (nodePool m) @ [gainNode (reset_nodes ?n)],
            filterNodes = filterNodes (nodePool m) @ [filterNode (reset_nodes ?n)],
            pannerNodes = pannerNodes (nodePool m) @ [pannerNode (reset_nodes ?n)]\<rparr>"
    using tl by (rule release_pool_reachable)
  have "fst (getPooledNodes (snd (returnNodesToPool False ?n m))) = reset_nodes ?n"
    unfolding acquire_after_release using tl by (rule reset_timelines_ok)
  then have b: "getPooledNodes (snd (returnNodesToPool False ?n m)) = (reset_nodes ?n, m)"
    using acquire_returns_state [of ?n m]
    by (cases "getPooledNodes (snd (returnNodesToPool False ?n m))") simp
  have n: "neutral (reset_nodes ?n)" by (simp add: neutral_def reset_nodes_def)
  have p: "pool_neutral (nodePool (snd (returnNodesToPool False ?n m)))"
    using pn tl by (rule returnNodesToPool_neutral)
  have r: "isActive (grains m ! g) \<longrightarrow>
            nodePool (snd (cleanupGrain pf g m)) =
              nodePool (snd (returnNodesToPool (pf_reset_throws pf g) ?n m))"
    using cleanupGrain_releases [OF assms(2)] by blast
  show ?thesis using pn a b n p r release_throws [of ?n m] by blast
qed

theorem released_nodes_neutral_witness:
  "0 < length (grains (run [grain_A] (constructor 1))) \<and>
   isActive (grains (run [grain_A] (constructor 1)) ! 0) \<and>
   gain_events (gainNode (nodes (grains (run [grain_A] (constructor 1)) ! 0))) \<noteq> [] \<and>
   frequency_value (filterNode (nodes (grains (run [grain_A] (constructor 1)) ! 0))) = 100 \<and>
   gainNodes (nodePool (run [grain_A] (constructor 1))) = [] \<and>
   gainNodes (nodePool (snd (cleanupGrain (quiet_platform 2) 0 (run [grain_A] (constructor 1)))))
     = [gainNode (reset_nodes (nodes (grains (run [grain_A] (constructor 1)) ! 0)))] \<and>
   getPooledNodes (snd (returnNodesToPool False
       (nodes (grains (run [grain_A] (constructor 1)) ! 0)) (run [grain_A] (constructor 1))))
     = (reset_nodes (nodes (grains (run [grain_A] (constructor 1)) ! 0)),
        run [grain_A] (constructor 1)) \<and>
   neutral (reset_nodes (nodes (grains (run [grain_A] (constructor 1)) ! 0)))"
proof -
  let ?m = "run [grain_A] (constructor 1)"
  have v: "0 < length (grains ?m)"
    by (simp add: manager_eval grain_A_def)
  have ac: "isActive (grains ?m ! 0)"
    by (simp add: manager_eval grain_A_def)
  have f: "frequency_value (filterNode (nodes (grains ?m ! 0))) = 100"
    by (simp add: manager_eval grain_A_def or_default_def)
  have e: "gain_events (gainNode (nodes (grains ?m ! 0))) \<noteq> []"
    by (simp add: manager_eval grain_A_def applyOptimizedEnvelope_def envelopeCalls_def
        automation_ok_def createGain_def envelopePeakGain_def or_default_def BASE_GAIN_def)
  have p0: "gainNodes (nodePool ?m) = []"
    by (simp add: manager_eval grain_A_def)
  have q: "pf_reset_throws (quiet_platform 2) 0 = False"
    by (simp add: quiet_platform_def never_def)
  note inst = released_nodes_neutral [OF refl v, of "quiet_platform 2"]
  have g: "getPooledNodes (snd (returnNodesToPool False (nodes (grains ?m ! 0)) ?m))
     = (reset_nodes (nodes (grains ?m ! 0)), ?m)"
    and n: "neutral (reset_nodes (nodes (grains ?m ! 0)))"
    using inst by blast+
  have "nodePool (snd (cleanupGrain (quiet_platform 2) 0 ?m)) =
      \<lparr>gainNodes = gainNodes (nodePool ?m) @ [gainNode (reset_nodes (nodes (grains ?m ! 0)))],
       filterNodes = filterNodes (nodePool ?m)
         @ [filterNode (reset_nodes (nodes (grains ?m ! 0)))],
       pannerNodes = pannerNodes (nodePool ?m)
         @ [pannerNode (reset_nodes (nodes (grains ?m ! 0)))]\<rparr>"
    using inst ac unfolding q by (simp only:)
  then have c: "gainNodes (nodePool (snd (cleanupGrain (quiet_platform 2) 0 ?m)))
     = [gainNode (reset_nodes (nodes (grains ?m ! 0)))]"
    unfolding p0 by simp
  show ?thesis using v ac f e p0 c g n by blast
qed

text \<open>
  C5, as stated, fails: for shape 0 with duration 1.0, attack 0.1, decay 0.2 and peak
  gain 0.5 (volume 2.5), no control point (0.7, 0.5) is generated.
\<close>

theorem linear_scenario_counterexample:
  "(7 / 10, 1 / 2) \<notin> set (control_points
      (gain_events (snd (applyOptimizedEnvelope createGain 0 1 linear_scenario))))"
  by (simp add: linear_events control_points_def)

text \<open>
  C5, amended: the generated control points are exactly (0, 0), (0.1, 0.5),
  (0.8, 0.5) and (1.0, 0); the third one marks the end of the sustain plateau, at
  attack time plus sustain time \<open>0.1 + 0.7\<close>.
\<close>

theorem linear_scenario_points:
  "envelopePeakGain linear_scenario = 1 / 2 \<and>
   control_points (gain_events (snd (applyOptimizedEnvelope createGain 0 1 linear_scenario))) =
     [(0, 0), (1 / 10, 1 / 2), (8 / 10, 1 / 2), (1, 0)]"
proof -
  have "envelopePeakGain linear_scenario = 1 / 2"
    by (simp add: linear_scenario_def envelopePeakGain_def or_default_def BASE_GAIN_def
        default_params_def)
  then show ?thesis by (simp add: linear_events control_points_def)
qed

text \<open>
  C4, as stated, fails for shape 1: the last control point has gain 0.001, which
  exceeds \<open>0.001 * peakGain\<close> (peak gain 0.2 at volume 1).
\<close>

theorem exponential_tail_counterexample:
  "\<not> event_value (last (gain_events
        (snd (applyOptimizedEnvelope createGain 0 1 exponential_scenario))))
      \<le> 0.001 * envelopePeakGain exponential_scenario"
proof -
  have s: "envelopeShape exponential_scenario = 1"
    by (simp add: exponential_scenario_def)
  have "last (envelopeCalls 0 1 exponential_scenario) = ExponentialRampToValueAtTime 0.001 (0 + 1)"
    using envelopeCalls_last [of 1 0 exponential_scenario] s by simp
  moreover have "envelopePeakGain exponential_scenario = 0.2"
    by (simp add: exponential_scenario_def envelopePeakGain_def or_default_def BASE_GAIN_def)
  ultimately show ?thesis by (simp add: exponential_result)
qed

text \<open>
  C4, amended: for a start time of at least 0, a positive duration, non-negative
  attack and decay times and a volume in \<open>[0, 1]\<close>, the automation scheduled on a
  gain node with an empty timeline starts with the control point (startTime, 0) and
  ends with a control point at \<open>startTime + duration\<close>, whose gain is 0 for the shapes
  0, 2, 4, 6, 7 (and for the default branch), the fixed floor 0.001 for shape 1,
  \<open>peakGain / (1 + exp 6)\<close> for shape 3 and \<open>peakGain * exp (- 9 / 2)\<close> for shape 5;
  the last three exceed \<open>0.001 * peakGain\<close>.
\<close>

theorem envelope_endpoints:
  assumes "0 \<le> startTime" "0 < duration" "0 \<le> attackTime p" "0 \<le> decayTime p"
    "0 \<le> volume p" "volume p \<le> 1" "gain_events g = []"
  shows "gain_events (snd (applyOptimizedEnvelope g startTime duration p)) \<noteq> [] \<and>
    hd (gain_events (snd (applyOptimizedEnvelope g startTime duration p)))
      = SetValueAtTime 0 startTime \<and>
    event_time (last (gain_events (snd (applyOptimizedEnvelope g startTime duration p))))
      = startTime + duration \<and>
    (envelopeShape p \<notin> {1, 3, 5} \<longrightarrow>
       event_value (last (gain_events (snd (applyOptimizedEnvelope g startTime duration p)))) = 0 \<and>
       event_value (last (gain_events (snd (applyOptimizedEnvelope g startTime duration p))))
         \<le> 0.001 * envelopePeakGain p) \<and>
    (envelopeShape p = 1 \<longrightarrow>
       event_value (last (gain_events (snd (applyOptimizedEnvelope g startTime duration p))))
         = 0.001 \<and>
       0.001 * envelopePeakGain p
         < event_value (last (gain_events (snd (applyOptimizedEnvelope g startTime duration p))))) \<and>
    (envelopeShape p = 3 \<longrightarrow>
       event_value (last (gain_events (snd (applyOptimizedEnvelope g startTime duration p))))
         = envelopePeakGain p / (1 + exp 6) \<and>
       0.001 * envelopePeakGain p
         < event_value (last (gain_events (snd (applyOptimizedEnvelope g startTime duration p))))) \<and>
    (envelopeShape p = 5 \<longrightarrow>
       event_value (last (gain_events (snd (applyOptimizedEnvelope g startTime duration p))))
         = envelopePeakGain p * exp (- (9 / 2)) \<and>
       0.001 * envelopePeakGain p
         < event_value (last (gain_events (snd (applyOptimizedEnvelope g startTime duration p)))))"
proof -
  have r: "gain_events (snd (applyOptimizedEnvelope g startTime duration p)) =
      envelopeCalls startTime duration p"
    using assms(1-5) assms(7) by (rule envelope_result)
  have pk: "0 < envelopePeakGain p" using assms(5) by (rule peakGain_pos)
  have pk1: "envelopePeakGain p < 1" using assms(6) by (rule peakGain_less_one)
  have l: "last (envelopeCalls startTime duration p) =
     (if envelopeShape p = 1 then ExponentialRampToValueAtTime 0.001 (startTime + duration)
      else if envelopeShape p = 3
        then LinearRampToValueAtTime (envelopePeakGain p / (1 + exp 6)) (startTime + duration)
      else if envelopeShape p = 5
        then LinearRampToValueAtTime (envelopePeakGain p * exp (- (9 / 2))) (startTime + duration)
      else LinearRampToValueAtTime 0 (startTime + duration))"
    using assms(2) by (rule envelopeCalls_last)
  have t: "event_time (last (envelopeCalls startTime duration p)) = startTime + duration"
    unfolding l by simp
  have z: "envelopeShape p \<notin> {1, 3, 5} \<longrightarrow>
       event_value (last (envelopeCalls startTime duration p)) = 0 \<and>
       event_value (last (envelopeCalls startTime duration p)) \<le> 0.001 * envelopePeakGain p"
    unfolding l using pk by simp
  have e: "envelopeShape p = 1 \<longrightarrow>
       event_value (last (envelopeCalls startTime duration p)) = 0.001 \<and>
       0.001 * envelopePeakGain p < event_value (last (envelopeCalls startTime duration p))"
    unfolding l using pk1 by simp
  have s: "envelopeShape p = 3 \<longrightarrow>
       event_value (last (envelopeCalls startTime duration p)) = envelopePeakGain p / (1 + exp 6) \<and>
       0.001 * envelopePeakGain p < event_value (last (envelopeCalls startTime duration p))"
    unfolding l using sigmoid_tail [OF pk] by simp
  have g: "envelopeShape p = 5 \<longrightarrow>
       event_value (last (envelopeCalls startTime duration p))
         = envelopePeakGain p * exp (- (9 / 2)) \<and>
       0.001 * envelopePeakGain p < event_value (last (envelopeCalls startTime duration p))"
    unfolding l using gaussian_tail [OF pk] by simp
  show ?thesis unfolding r using envelopeCalls_hd [of startTime duration p] t z e s g by blast
qed

theorem envelope_endpoints_witness:
  "hd (gain_events (snd (applyOptimizedEnvelope createGain 0 1 default_params)))
     = SetValueAtTime 0 0 \<and>
   event_time (last (gain_events (snd (applyOptimizedEnvelope createGain 0 1 default_params))))
     = 1 \<and>
   event_value (last (gain_events (snd (applyOptimizedEnvelope createGain 0 1 default_params))))
     = 0 \<and>
   event_value (last (gain_events
       (snd (applyOptimizedEnvelope createGain 0 1 exponential_scenario)))) = 0.001 \<and>
   0.001 * envelopePeakGain sigmoid_scenario
     < event_value (last (gain_events
         (snd (applyOptimizedEnvelope createGain 0 1 sigmoid_scenario)))) \<and>
   0.001 * envelopePeakGain gaussian_scenario
     < event_value (last (gain_events
         (snd (applyOptimizedEnvelope createGain 0 1 gaussian_scenario))))"
proof -
  have h0: "(0::real) \<le> 0" "(0::real) < 1" by simp_all
  have g: "gain_events createGain = []" by (simp add: createGain_def)
  have p0: "0 \<le> attackTime default_params" "0 \<le> decayTime default_params"
    "0 \<le> volume default_params" "volume default_params \<le> 1"
    "envelopeShape default_params \<notin> {1, 3, 5}"
    by (simp_all add: default_params_def)
  have p1: "0 \<le> attackTime exponential_scenario" "0 \<le> decayTime exponential_scenario"
    "0 \<le> volume exponential_scenario" "volume exponential_scenario \<le> 1"
    "envelopeShape exponential_scenario = 1"
    by (simp_all add: exponential_scenario_def default_params_def)
  have p3: "0 \<le> attackTime sigmoid_scenario" "0 \<le> decayTime sigmoid_scenario"
    "0 \<le> volume sigmoid_scenario" "volume sigmoid_scenario \<le> 1"
    "envelopeShape sigmoid_scenario = 3"
    by (simp_all add: sigmoid_scenario_def default_params_def)
  have p5: "0 \<le> attackTime gaussian_scenario" "0 \<le> decayTime gaussian_scenario"
    "0 \<le> volume gaussian_scenario" "volume gaussian_scenario \<le> 1"
    "envelopeShape gaussian_scenario = 5"
    by (simp_all add: gaussian_scenario_def default_params_def)
  have w0: "hd (gain_events (snd (applyOptimizedEnvelope createGain 0 1 default_params)))
       = SetValueAtTime 0 0 \<and>
     event_time (last (gain_events (snd (applyOptimizedEnvelope createGain 0 1 default_params))))
       = 0 + 1 \<and>
     event_value (last (gain_events (snd (applyOptimizedEnvelope createGain 0 1 default_params))))
       = 0"
    using envelope_endpoints [OF h0 p0(1-4) g] p0(5) by blast
  have w1: "event_value (last (gain_events
       (snd (applyOptimizedEnvelope createGain 0 1 exponential_scenario)))) = 0.001"
    using envelope_endpoints [OF h0 p1(1-4) g] p1(5) by blast
  have w3: "0.001 * envelopePeakGain sigmoid_scenario
     < event_value (last (gain_events
         (snd (applyOptimizedEnvelope createGain 0 1 sigmoid_scenario))))"
    using envelope_endpoints [OF h0 p3(1-4) g] p3(5) by blast
  have w5: "0.001 * envelopePeakGain gaussian_scenario
     < event_value (last (gain_events
         (snd (applyOptimizedEnvelope createGain 0 1 gaussian_scenario))))"
    using envelope_endpoints [OF h0 p5(1-4) g] p5(5) by blast
  show ?thesis using w0 w1 w3 w5 by simp
qed




end
